theory Spec2Isabelle
  imports Complex_Main "HOL-Library.Sublist"
begin

section \<open>Background service worker (the tab controller)\<close>

subsection \<open>Constants\<close>

definition LINKEDIN_ZIP_URL :: string where
  "LINKEDIN_ZIP_URL = ''https://www.linkedin.com/games/zip/''"

definition LINKEDIN_ZIP_URL_PATTERN :: string where
  "LINKEDIN_ZIP_URL_PATTERN = ''linkedin.com/games/zip''"

definition SCRIPT_INJECTION_DELAY_MS :: nat where
  "SCRIPT_INJECTION_DELAY_MS = 100"

definition PAGE_LOAD_DELAY_MS :: nat where
  "PAGE_LOAD_DELAY_MS = 500"

definition RETRY_DELAY_MS :: nat where
  "RETRY_DELAY_MS = 200"

definition MAX_RETRIES :: nat where
  "MAX_RETRIES = 10"

subsection \<open>The browser as seen by the controller\<close>

text \<open>
  The two messages of the protocol, and the response objects the page agent sends back:
  \<open>{ready: b}\<close>, \<open>{success: true}\<close> and \<open>{success: false, error: e}\<close>. \<open>NoResponse\<close>
  is \<open>undefined\<close>.
\<close>

datatype message = CHECK_READY | SOLVE_PUZZLE

datatype response = NoResponse | ReadyResponse bool | SolveResponse bool "string option"

text \<open>The three badge texts the worker sets: the empty text, the reload arrow, the cross.\<close>

datatype badge = BADGE_CLEAR | BADGE_LOADING | BADGE_ERROR

text \<open>
  Every call of the worker into the browser. \<open>SetTimeout d\<close> stands for a timer of
  \<open>d\<close> milliseconds; the model runs its callback right after recording it.
\<close>

datatype api_call =
    SetBadgeText badge nat
  | SetBadgeBackgroundColor string nat
  | SendMessage nat message
  | ExecuteScript nat
  | TabsUpdate nat string
  | SetTimeout nat

text \<open>
  The browser is a script: the answer to a call depends on the call and on how many calls
  came before it. \<open>Inl m\<close> is a rejection with message \<open>m\<close> (for a message this is
  \<open>chrome.runtime.lastError\<close> or the 5000 ms timeout of \<open>sendMessageToTab\<close>).
\<close>

type_synonym browser = "nat \<Rightarrow> api_call \<Rightarrow> string + response"

record controller =
  pendingSolveTabId :: "nat option"
  calls :: "api_call list"

record tab =
  tab_id :: "nat option"
  tab_url :: "string option"

datatype tab_status = StatusLoading | StatusComplete | StatusAbsent

text \<open>What one solve cycle ends with: the three branches at the end of \<open>solvePuzzleInTab\<close>
  and its \<open>catch\<close> block.\<close>

datatype cycle_end =
    SolvingStarted
  | SolvingError string
  | NothingReported
  | OperationFailed string

definition invoke :: "browser \<Rightarrow> api_call \<Rightarrow> controller \<Rightarrow> controller \<times> (string + response)" where
  "invoke br c st = (st\<lparr>calls := calls st @ [c]\<rparr>, br (length (calls st)) c)"

definition wait :: "nat \<Rightarrow> controller \<Rightarrow> controller" where
  "wait d st = st\<lparr>calls := calls st @ [SetTimeout d]\<rparr>"

subsection \<open>Helper functions\<close>

fun js_includes :: "string \<Rightarrow> string \<Rightarrow> bool" where
  "js_includes [] p = (p = [])"
| "js_includes (c # cs) p = (prefix p (c # cs) \<or> js_includes cs p)"

definition isLinkedInZipPage :: "string option \<Rightarrow> bool" where
  "isLinkedInZipPage url =
     (case url of None \<Rightarrow> False
      | Some u \<Rightarrow> u \<noteq> [] \<and> js_includes u LINKEDIN_ZIP_URL_PATTERN)"

definition sendMessageToTab ::
  "browser \<Rightarrow> nat \<Rightarrow> message \<Rightarrow> controller \<Rightarrow> controller \<times> (string + response)" where
  "sendMessageToTab br tabId msg st = invoke br (SendMessage tabId msg) st"

definition injectContentScript ::
  "browser \<Rightarrow> nat \<Rightarrow> controller \<Rightarrow> controller \<times> (string + unit)" where
  "injectContentScript br tabId st =
     (case invoke br (ExecuteScript tabId) st of
        (st1, Inl e) \<Rightarrow> (st1, Inl (''Script injection error: '' @ e))
      | (st1, Inr _) \<Rightarrow> (st1, Inr ()))"

definition sendMessageWithInjection ::
  "browser \<Rightarrow> nat \<Rightarrow> message \<Rightarrow> controller \<Rightarrow> controller \<times> (string + response)" where
  "sendMessageWithInjection br tabId msg st =
     (case sendMessageToTab br tabId msg st of
        (st1, Inr r) \<Rightarrow> (st1, Inr r)
      | (st1, Inl e) \<Rightarrow>
          (case injectContentScript br tabId st1 of
             (st2, Inl injectError) \<Rightarrow> (st2, Inl injectError)
           | (st2, Inr _) \<Rightarrow>
               sendMessageToTab br tabId msg (wait SCRIPT_INJECTION_DELAY_MS st2)))"

subsection \<open>Event handlers\<close>

text \<open>The \<open>catch\<close> block of \<open>solvePuzzleInTab\<close>: the error badge, cleared after 3000 ms;
  a failing badge call is logged and ends the block.\<close>

definition showErrorBadge :: "browser \<Rightarrow> nat \<Rightarrow> controller \<Rightarrow> controller" where
  "showErrorBadge br tabId st =
     (case invoke br (SetBadgeText BADGE_ERROR tabId) st of
        (st1, Inl _) \<Rightarrow> st1
      | (st1, Inr _) \<Rightarrow>
          (case invoke br (SetBadgeBackgroundColor ''#ef4444'' tabId) st1 of
             (st2, Inl _) \<Rightarrow> st2
           | (st2, Inr _) \<Rightarrow> fst (invoke br (SetBadgeText BADGE_CLEAR tabId) (wait 3000 st2))))"

definition failed :: "browser \<Rightarrow> nat \<Rightarrow> string \<Rightarrow> controller \<Rightarrow> controller \<times> cycle_end" where
  "failed br tabId e st = (showErrorBadge br tabId st, OperationFailed e)"

text \<open>The end of the \<open>try\<close> block: the solve message, sent with injection on demand.\<close>

definition dispatch :: "browser \<Rightarrow> nat \<Rightarrow> controller \<Rightarrow> controller \<times> cycle_end" where
  "dispatch br tabId st =
     (case sendMessageWithInjection br tabId SOLVE_PUZZLE st of
        (st1, Inl e) \<Rightarrow> failed br tabId e st1
      | (st1, Inr (SolveResponse True _)) \<Rightarrow> (st1, SolvingStarted)
      | (st1, Inr (SolveResponse False (Some e))) \<Rightarrow>
          (st1, if e \<noteq> [] then SolvingError e else NothingReported)
      | (st1, Inr _) \<Rightarrow> (st1, NothingReported))"

text \<open>The readiness check at the head of \<open>solvePuzzleInTab\<close>: \<open>Inr isReady\<close>, or
  \<open>Inl e\<close> when the injection that follows an unanswered query throws.\<close>

definition checkReady :: "browser \<Rightarrow> nat \<Rightarrow> controller \<Rightarrow> controller \<times> (string + bool)" where
  "checkReady br tabId st =
     (case sendMessageToTab br tabId CHECK_READY st of
        (st1, Inr (ReadyResponse ready)) \<Rightarrow> (st1, Inr ready)
      | (st1, Inr _) \<Rightarrow> (st1, Inr False)
      | (st1, Inl _) \<Rightarrow>
          (case injectContentScript br tabId st1 of
             (st2, Inl e) \<Rightarrow> (st2, Inl e)
           | (st2, Inr _) \<Rightarrow> (wait SCRIPT_INJECTION_DELAY_MS st2, Inr False)))"

fun solvePuzzleInTab :: "browser \<Rightarrow> nat \<Rightarrow> nat \<Rightarrow> controller \<Rightarrow> controller \<times> cycle_end" where
  "solvePuzzleInTab br tabId retryCount st =
     (case invoke br (SetBadgeText BADGE_CLEAR tabId) st of
        (st1, Inl e) \<Rightarrow> failed br tabId e st1
      | (st1, Inr _) \<Rightarrow>
          (case checkReady br tabId st1 of
             (st2, Inl e) \<Rightarrow> failed br tabId e st2
           | (st2, Inr isReady) \<Rightarrow>
               if \<not> isReady \<and> retryCount > 0 then
                 solvePuzzleInTab br tabId (retryCount - 1) (wait RETRY_DELAY_MS st2)
               else dispatch br tabId st2))"

declare solvePuzzleInTab.simps [simp del]

definition solvePuzzleInTabWithRetry :: "browser \<Rightarrow> nat \<Rightarrow> controller \<Rightarrow> controller \<times> cycle_end" where
  "solvePuzzleInTabWithRetry br tabId st = solvePuzzleInTab br tabId MAX_RETRIES st"

text \<open>\<open>handleActionClick\<close>: \<open>None\<close> is the early return that starts no solve cycle.\<close>

definition handleActionClick ::
  "browser \<Rightarrow> tab option \<Rightarrow> controller \<Rightarrow> controller \<times> cycle_end option" where
  "handleActionClick br t st =
     (case t of None \<Rightarrow> (st, None)
      | Some tb \<Rightarrow>
         (case tab_id tb of None \<Rightarrow> (st, None)
          | Some i \<Rightarrow>
             if i = 0 then (st, None)
             else if \<not> isLinkedInZipPage (tab_url tb) then
               (case invoke br (SetBadgeText BADGE_LOADING i) st of
                  (st1, Inl _) \<Rightarrow> (st1\<lparr>pendingSolveTabId := None\<rparr>, None)
                | (st1, Inr _) \<Rightarrow>
                    (case invoke br (SetBadgeBackgroundColor ''#3b82f6'' i) st1 of
                       (st2, Inl _) \<Rightarrow> (st2\<lparr>pendingSolveTabId := None\<rparr>, None)
                     | (st2, Inr _) \<Rightarrow>
                         (case invoke br (TabsUpdate i LINKEDIN_ZIP_URL)
                                 (st2\<lparr>pendingSolveTabId := Some i\<rparr>) of
                            (st3, Inl _) \<Rightarrow> (st3\<lparr>pendingSolveTabId := None\<rparr>, None)
                          | (st3, Inr _) \<Rightarrow> (st3, None))))
             else
               (case solvePuzzleInTab br i MAX_RETRIES st of (st1, r) \<Rightarrow> (st1, Some r))))"

definition handleTabUpdate ::
  "browser \<Rightarrow> nat \<Rightarrow> tab_status \<Rightarrow> tab \<Rightarrow> controller \<Rightarrow> controller \<times> cycle_end option" where
  "handleTabUpdate br tabId status tb st =
     (if pendingSolveTabId st = Some tabId \<and> status = StatusComplete then
        let st1 = st\<lparr>pendingSolveTabId := None\<rparr> in
        if isLinkedInZipPage (tab_url tb) then
          (case solvePuzzleInTabWithRetry br tabId (wait PAGE_LOAD_DELAY_MS st1) of
             (st2, r) \<Rightarrow> (st2, Some r))
        else (st1, None)
      else (st, None))"

subsection \<open>Traces and scripted browsers\<close>

text \<open>The calls of a polling phase that is never ready, with \<open>n\<close> retries left at its start.\<close>

definition polling :: "nat \<Rightarrow> nat \<Rightarrow> api_call list" where
  "polling tabId n =
     concat (replicate n [SetBadgeText BADGE_CLEAR tabId, SendMessage tabId CHECK_READY,
                          SetTimeout RETRY_DELAY_MS])
     @ [SetBadgeText BADGE_CLEAR tabId, SendMessage tabId CHECK_READY]"

definition scripted_browser :: "(api_call \<Rightarrow> string + response) \<Rightarrow> browser" where
  "scripted_browser f = (\<lambda>k c. f c)"

definition never_ready :: "api_call \<Rightarrow> string + response" where
  "never_ready c =
     (case c of
        SendMessage _ CHECK_READY \<Rightarrow> Inr (ReadyResponse False)
      | SendMessage _ SOLVE_PUZZLE \<Rightarrow> Inr (SolveResponse True None)
      | _ \<Rightarrow> Inr NoResponse)"

definition no_agent :: "api_call \<Rightarrow> string + response" where
  "no_agent c =
     (case c of
        SendMessage _ _ \<Rightarrow> Inl ''Could not establish connection. Receiving end does not exist.''
      | _ \<Rightarrow> Inr NoResponse)"

definition fresh :: controller where
  "fresh = \<lparr>pendingSolveTabId = None, calls = []\<rparr>"

definition other_tab :: "nat \<Rightarrow> tab" where
  "other_tab i = \<lparr>tab_id = Some i, tab_url = Some ''https://www.linkedin.com/feed/''\<rparr>"

definition zip_tab :: "nat \<Rightarrow> tab" where
  "zip_tab i = \<lparr>tab_id = Some i, tab_url = Some LINKEDIN_ZIP_URL\<rparr>"

section \<open>Content script (the page agent): solution extraction\<close>

text \<open>
  The text of the page is a list of characters; a character stands for one code unit of the
  script's string, below 256.
\<close>

subsection \<open>Strings\<close>

definition code :: "char \<Rightarrow> nat" where
  "code c = of_char c"

text \<open>White space of \<open>String.prototype.trim\<close>: tab, line feed, vertical tab, form feed,
  carriage return, space and the no-break space.\<close>

definition is_white_space :: "char \<Rightarrow> bool" where
  "is_white_space c = (code c \<in> {9, 10, 11, 12, 13, 32, 160})"

definition trim :: "string \<Rightarrow> string" where
  "trim s = rev (dropWhile is_white_space (rev (dropWhile is_white_space s)))"

text \<open>The characters the dot of a regular expression without the \<open>s\<close> flag refuses.\<close>

definition is_line_terminator :: "char \<Rightarrow> bool" where
  "is_line_terminator c = (code c \<in> {10, 13})"

fun strip_prefix :: "string \<Rightarrow> string \<Rightarrow> string option" where
  "strip_prefix [] s = Some s"
| "strip_prefix (p # ps) [] = None"
| "strip_prefix (p # ps) (c # cs) = (if p = c then strip_prefix ps cs else None)"

subsection \<open>The three regular expressions\<close>

text \<open>
  A match is tried at every position from the left; the result is the first capture group of
  the leftmost match, \<open>None\<close> when \<open>String.prototype.match\<close> returns \<open>null\<close>.
\<close>

fun leftmost :: "(string \<Rightarrow> string option) \<Rightarrow> string \<Rightarrow> string option" where
  "leftmost here [] = here []"
| "leftmost here (c # cs) =
     (case here (c # cs) of Some g \<Rightarrow> Some g | None \<Rightarrow> leftmost here cs)"

definition not_close :: "char \<Rightarrow> bool" where
  "not_close c = (c \<noteq> CHR '']'')"

text \<open>The key of \<open>CONFIG.REGEX.SOLUTION\<close>: backslash, quote, \<open>solution\<close>, backslash, quote,
  colon, opening bracket.\<close>

definition KEY_ESCAPED :: string where
  "KEY_ESCAPED = [CHR 0x5C, CHR 0x22] @ ''solution'' @ [CHR 0x5C, CHR 0x22] @ '':[''"

definition KEY_PLAIN :: string where
  "KEY_PLAIN = [CHR 0x22] @ ''solution'' @ [CHR 0x22] @ '':[''"

text \<open>\<open>(.*?)\]\<close> with the \<open>s\<close> flag: the shortest text up to a closing bracket, possibly
  empty.\<close>

definition lazy_group :: "string \<Rightarrow> string option" where
  "lazy_group rest = (if CHR '']'' \<in> set rest then Some (takeWhile not_close rest) else None)"

text \<open>\<open>([^\]]+)\]\<close>: one or more characters other than the closing bracket, then the
  bracket. The greedy group takes them all; giving some back never finds a bracket.\<close>

definition bracketed :: "string \<Rightarrow> string option" where
  "bracketed rest =
     (let g = takeWhile not_close rest
      in if g \<noteq> [] \<and> length g < length rest then Some g else None)"

text \<open>\<open>.*?([^\]]+)\]\<close>: the lazy dot gives the group the first chance at each position and
  steps over one character, never a line terminator, when the group fails there.\<close>

fun lazy_dot :: "string \<Rightarrow> string option" where
  "lazy_dot [] = bracketed []"
| "lazy_dot (c # cs) =
     (case bracketed (c # cs) of
        Some g \<Rightarrow> Some g
      | None \<Rightarrow> if is_line_terminator c then None else lazy_dot cs)"

definition at_escaped :: "string \<Rightarrow> string option" where
  "at_escaped s = (case strip_prefix KEY_ESCAPED s of None \<Rightarrow> None | Some rest \<Rightarrow> lazy_group rest)"

definition at_plain :: "string \<Rightarrow> string option" where
  "at_plain s = (case strip_prefix KEY_PLAIN s of None \<Rightarrow> None | Some rest \<Rightarrow> bracketed rest)"

definition at_loose :: "string \<Rightarrow> string option" where
  "at_loose s = (case strip_prefix ''solution'' s of None \<Rightarrow> None | Some rest \<Rightarrow> lazy_dot rest)"

datatype pattern = ESCAPED | PLAIN | LOOSE

fun regex_match :: "pattern \<Rightarrow> string \<Rightarrow> string option" where
  "regex_match ESCAPED s = leftmost at_escaped s"
| "regex_match PLAIN s = leftmost at_plain s"
| "regex_match LOOSE s = leftmost at_loose s"

subsection \<open>\<open>JSON.parse\<close>\<close>

text \<open>
  A number carries the exact value of its literal. The script sees the double nearest to it,
  which is negative exactly when the value lies below \<open>-2\<^sup>-\<^sup>1\<^sup>0\<^sup>7\<^sup>5\<close>: a smaller
  magnitude rounds to zero. A string carries its text as written, escapes included.
\<close>

datatype json =
    JNull
  | JBool bool
  | JNumber rat
  | JString string
  | JArray "json list"
  | JObject "(string \<times> json) list"

datatype token =
    TLBracket | TRBracket | TLBrace | TRBrace | TComma | TColon
  | TNumber rat | TString string | TTrue | TFalse | TNull

definition is_json_space :: "char \<Rightarrow> bool" where
  "is_json_space c = (code c \<in> {9, 10, 13, 32})"

definition is_digit :: "char \<Rightarrow> bool" where
  "is_digit c = (48 \<le> code c \<and> code c \<le> 57)"

definition is_hex :: "char \<Rightarrow> bool" where
  "is_hex c = (is_digit c \<or> (65 \<le> code c \<and> code c \<le> 70) \<or> (97 \<le> code c \<and> code c \<le> 102))"

definition digits_value :: "string \<Rightarrow> nat" where
  "digits_value ds = foldl (\<lambda>a d. 10 * a + (code d - 48)) 0 ds"

text \<open>The text after the opening quote of a string: its content and what follows the closing
  quote.\<close>

fun lex_string :: "string \<Rightarrow> (string \<times> string) option" where
  "lex_string [] = None"
| "lex_string (c # cs) =
     (if c = CHR 0x22 then Some ([], cs)
      else if c = CHR 0x5C then
        (case cs of
           [] \<Rightarrow> None
         | e # cs' \<Rightarrow>
             if e \<in> set ([CHR 0x22, CHR 0x5C] @ ''/bfnrt'') then
               map_option (\<lambda>(str, rest). (c # e # str, rest)) (lex_string cs')
             else if e = CHR ''u'' \<and> 4 \<le> length cs' \<and> list_all is_hex (take 4 cs') then
               map_option (\<lambda>(str, rest). (c # e # take 4 cs' @ str, rest)) (lex_string (drop 4 cs'))
             else None)
      else if code c < 32 then None
      else map_option (\<lambda>(str, rest). (c # str, rest)) (lex_string cs))"

text \<open>A number: optional minus, an integer part without leading zero, an optional fraction,
  an optional exponent.\<close>

definition lex_exponent :: "string \<Rightarrow> ((rat \<Rightarrow> rat) \<times> string) option" where
  "lex_exponent s =
     (case s of
        [] \<Rightarrow> Some (\<lambda>v. v, s)
      | c # cs \<Rightarrow>
          if c = CHR ''e'' \<or> c = CHR ''E'' then
            (let (down, s1) =
                   (case cs of
                      [] \<Rightarrow> (False, cs)
                    | d # ds \<Rightarrow> if d = CHR ''-'' then (True, ds)
                               else if d = CHR ''+'' then (False, ds) else (False, cs));
                 ep = takeWhile is_digit s1
             in if ep = [] then None
                else Some (if down then (\<lambda>v. v / 10 ^ digits_value ep)
                           else (\<lambda>v. v * 10 ^ digits_value ep),
                           dropWhile is_digit s1))
          else Some (\<lambda>v. v, s))"

definition lex_fraction :: "string \<Rightarrow> (rat \<times> string) option" where
  "lex_fraction s =
     (case s of
        [] \<Rightarrow> Some (0, s)
      | c # cs \<Rightarrow>
          if c = CHR ''.'' then
            (let fp = takeWhile is_digit cs
             in if fp = [] then None
                else Some (of_nat (digits_value fp) / 10 ^ length fp, dropWhile is_digit cs))
          else Some (0, s))"

definition lex_number :: "string \<Rightarrow> (rat \<times> string) option" where
  "lex_number s =
     (let (neg, s1) = (case s of [] \<Rightarrow> (False, s)
                       | c # cs \<Rightarrow> if c = CHR ''-'' then (True, cs) else (False, s));
          ip = takeWhile is_digit s1
      in if ip = [] \<or> (hd ip = CHR ''0'' \<and> 1 < length ip) then None
         else
           (case lex_fraction (dropWhile is_digit s1) of
              None \<Rightarrow> None
            | Some (f, s2) \<Rightarrow>
                (case lex_exponent s2 of
                   None \<Rightarrow> None
                 | Some (scale, s3) \<Rightarrow>
                     Some ((if neg then - 1 else 1) * scale (of_nat (digits_value ip) + f), s3))))"

function tokenize :: "string \<Rightarrow> token list option" where
  "tokenize [] = Some []"
| "tokenize (c # cs) =
     (if is_json_space c then tokenize cs
      else if c = CHR ''['' then map_option ((#) TLBracket) (tokenize cs)
      else if c = CHR '']'' then map_option ((#) TRBracket) (tokenize cs)
      else if c = CHR ''{'' then map_option ((#) TLBrace) (tokenize cs)
      else if c = CHR ''}'' then map_option ((#) TRBrace) (tokenize cs)
      else if c = CHR '','' then map_option ((#) TComma) (tokenize cs)
      else if c = CHR '':'' then map_option ((#) TColon) (tokenize cs)
      else if c = CHR 0x22 then
        (case lex_string cs of
           None \<Rightarrow> None
         | Some (str, rest) \<Rightarrow> map_option ((#) (TString str)) (tokenize rest))
      else if c = CHR ''-'' \<or> is_digit c then
        (case lex_number (c # cs) of
           None \<Rightarrow> None
         | Some (v, rest) \<Rightarrow> map_option ((#) (TNumber v)) (tokenize rest))
      else if prefix ''true'' (c # cs) then map_option ((#) TTrue) (tokenize (drop 3 cs))
      else if prefix ''false'' (c # cs) then map_option ((#) TFalse) (tokenize (drop 4 cs))
      else if prefix ''null'' (c # cs) then map_option ((#) TNull) (tokenize (drop 3 cs))
      else None)"
  by pat_completeness auto
termination
proof (relation "measure length")
  have ls: "length rest \<le> length s" if "lex_string s = Some (str, rest)" for s str rest
    using that
  proof (induction s arbitrary: str rest rule: lex_string.induct)
    case 1
    then show ?case by simp
  next
    case (2 c cs)
    then show ?case
      by (fastforce split: if_splits list.splits)
  qed
  have le: "length rest \<le> length s" if "lex_exponent s = Some (f, rest)" for s f rest
    using that length_dropWhile_le [of is_digit]
    by (auto simp: lex_exponent_def Let_def le_SucI split: list.splits if_splits prod.splits)
  have lf: "length rest \<le> length s" if "lex_fraction s = Some (f, rest)" for s f rest
    using that length_dropWhile_le [of is_digit]
    by (auto simp: lex_fraction_def Let_def le_SucI split: list.splits if_splits)
  have ln: "length rest < length s" if n: "lex_number s = Some (v, rest)" for s v rest
  proof -
    define s1 where "s1 = (case s of [] \<Rightarrow> s | c # cs \<Rightarrow> if c = CHR ''-'' then cs else s)"
    have s1: "length s1 \<le> length s"
      by (simp add: s1_def split: list.split)
    have sp: "(case s of [] \<Rightarrow> (False, s) | c # cs \<Rightarrow> if c = CHR ''-'' then (True, cs) else (False, s))
              = (s \<noteq> [] \<and> hd s = CHR ''-'', s1)"
      by (simp add: s1_def split: list.split)
    from n have ip: "takeWhile is_digit s1 \<noteq> []"
      unfolding lex_number_def sp by (auto simp: Let_def split: if_splits)
    from n obtain f s2 scale where
      fr: "lex_fraction (dropWhile is_digit s1) = Some (f, s2)" and
      ex: "lex_exponent s2 = Some (scale, rest)"
      unfolding lex_number_def sp
      by (auto simp: Let_def split: if_splits option.splits)
    have "length (takeWhile is_digit s1) + length (dropWhile is_digit s1) = length s1"
      by (metis length_append takeWhile_dropWhile_id)
    with ip have "length (dropWhile is_digit s1) < length s1"
      by (cases "takeWhile is_digit s1") auto
    with lf [OF fr] le [OF ex] s1 show ?thesis by linarith
  qed
  show "wf (measure length)" by simp
  show "(rest, c # cs) \<in> measure length"
    if "lex_string cs = Some x" "(str, rest) = x" for c cs x str rest
    using ls [of cs str rest] that by auto
  show "(rest, c # cs) \<in> measure length"
    if "lex_number (c # cs) = Some x" "(v, rest) = x" for c cs x v rest
    using ln [of "c # cs" v rest] that by auto
qed auto

text \<open>The parser proper: a stack of the containers that are open, and what may come next.\<close>

datatype frame =
    FArray "json list"
  | FObject "(string \<times> json) list" "string option"

datatype mode =
    Value
  | ValueOrEnd
  | KeyOrEnd
  | Key
  | Colon string
  | CommaOrEnd
  | Done json

fun put :: "json \<Rightarrow> frame list \<Rightarrow> (mode \<times> frame list) option" where
  "put v [] = Some (Done v, [])"
| "put v (FArray vs # fs) = Some (CommaOrEnd, FArray (vs @ [v]) # fs)"
| "put v (FObject kvs (Some k) # fs) = Some (CommaOrEnd, FObject (kvs @ [(k, v)]) None # fs)"
| "put v (FObject kvs None # fs) = None"

fun begin_value :: "token \<Rightarrow> frame list \<Rightarrow> (mode \<times> frame list) option" where
  "begin_value TLBracket fs = Some (ValueOrEnd, FArray [] # fs)"
| "begin_value TLBrace fs = Some (KeyOrEnd, FObject [] None # fs)"
| "begin_value (TNumber r) fs = put (JNumber r) fs"
| "begin_value (TString s) fs = put (JString s) fs"
| "begin_value TTrue fs = put (JBool True) fs"
| "begin_value TFalse fs = put (JBool False) fs"
| "begin_value TNull fs = put JNull fs"
| "begin_value _ fs = None"

fun end_container :: "token \<Rightarrow> frame list \<Rightarrow> (mode \<times> frame list) option" where
  "end_container TRBracket (FArray vs # fs) = put (JArray vs) fs"
| "end_container TRBrace (FObject kvs None # fs) = put (JObject kvs) fs"
| "end_container _ _ = None"

fun step :: "mode \<Rightarrow> frame list \<Rightarrow> token \<Rightarrow> (mode \<times> frame list) option" where
  "step Value fs t = begin_value t fs"
| "step ValueOrEnd fs t = (if t = TRBracket then end_container t fs else begin_value t fs)"
| "step KeyOrEnd fs t =
     (case t of TString k \<Rightarrow> Some (Colon k, fs) | TRBrace \<Rightarrow> end_container t fs | _ \<Rightarrow> None)"
| "step Key fs t = (case t of TString k \<Rightarrow> Some (Colon k, fs) | _ \<Rightarrow> None)"
| "step (Colon k) fs t =
     (case (t, fs) of
        (TColon, FObject kvs None # fs') \<Rightarrow> Some (Value, FObject kvs (Some k) # fs')
      | _ \<Rightarrow> None)"
| "step CommaOrEnd fs t =
     (case (t, fs) of
        (TComma, FArray vs # fs') \<Rightarrow> Some (Value, fs)
      | (TComma, FObject kvs None # fs') \<Rightarrow> Some (Key, fs)
      | _ \<Rightarrow> end_container t fs)"
| "step (Done v) fs t = None"

fun parse_tokens :: "mode \<Rightarrow> frame list \<Rightarrow> token list \<Rightarrow> json option" where
  "parse_tokens m fs [] = (case m of Done v \<Rightarrow> Some v | _ \<Rightarrow> None)"
| "parse_tokens m fs (t # ts) =
     (case step m fs t of None \<Rightarrow> None | Some (m', fs') \<Rightarrow> parse_tokens m' fs' ts)"

text \<open>\<open>None\<close> is the \<open>SyntaxError\<close> that \<open>JSON.parse\<close> throws.\<close>

definition JSON_parse :: "string \<Rightarrow> json option" where
  "JSON_parse s = (case tokenize s of None \<Rightarrow> None | Some ts \<Rightarrow> parse_tokens Value [] ts)"

text \<open>\<open>cell < 0\<close> on the double nearest to the value \<open>r\<close>.\<close>

definition less_than_zero :: "rat \<Rightarrow> bool" where
  "less_than_zero r = (r < - (1 / 2 ^ 1075))"

text \<open>\<open>typeof cell !== 'number' || cell < 0\<close>\<close>

fun invalid_cell :: "json \<Rightarrow> bool" where
  "invalid_cell (JNumber r) = less_than_zero r"
| "invalid_cell _ = True"

subsection \<open>\<open>extractSolution\<close>\<close>

text \<open>The errors of the content script, by the statement that throws them. The four
  \<open>CouldNotParse\<close> errors are those the \<open>catch\<close> block of \<open>extractSolution\<close> rethrows
  with the prefix \<open>Could not parse solution:\<close>.\<close>

datatype parse_failure =
    DataEmptyOrInvalid
  | SyntaxError
  | NotAValidArray
  | InvalidCellNumbers

datatype error =
    GameDataNotFound
  | GameDataEmpty
  | SolutionDataNotFound
  | CouldNotParse parse_failure
  | SolutionEmptyOrInvalid

text \<open>The matching part: the state is the patterns tried so far and \<open>solutionMatch\<close>.\<close>

type_synonym matching = "pattern list \<times> string option"

definition try_pattern :: "pattern \<Rightarrow> string \<Rightarrow> matching \<Rightarrow> matching" where
  "try_pattern p scriptContent st = (fst st @ [p], regex_match p scriptContent)"

definition find_solution :: "string \<Rightarrow> matching" where
  "find_solution scriptContent =
     (let st = try_pattern ESCAPED scriptContent ([], None);
          st = (if snd st = None then try_pattern PLAIN scriptContent st else st);
          st = (if snd st = None then try_pattern LOOSE scriptContent st else st)
      in st)"

text \<open>The \<open>try\<close> block that parses the captured group.\<close>

definition parse_solution :: "string \<Rightarrow> error + json list" where
  "parse_solution solutionData =
     (if solutionData = [] \<or> solutionData = ''undefined'' \<or> trim solutionData = [] then
        Inl (CouldNotParse DataEmptyOrInvalid)
      else
        (case JSON_parse (''['' @ trim solutionData @ '']'') of
           None \<Rightarrow> Inl (CouldNotParse SyntaxError)
         | Some (JArray solution) \<Rightarrow>
             if list_ex invalid_cell solution then Inl (CouldNotParse InvalidCellNumbers)
             else Inr solution
         | Some _ \<Rightarrow> Inl (CouldNotParse NotAValidArray)))"

text \<open>The argument is the text of the element \<open>rehydrate-data\<close>, \<open>None\<close> when the page has
  no such element.\<close>

definition extractSolution :: "string option \<Rightarrow> error + json list" where
  "extractSolution element =
     (case element of
        None \<Rightarrow> Inl GameDataNotFound
      | Some scriptContent \<Rightarrow>
          if scriptContent = [] \<or> trim scriptContent = [] then Inl GameDataEmpty
          else
            (case snd (find_solution scriptContent) of
               None \<Rightarrow> Inl SolutionDataNotFound
             | Some solutionData \<Rightarrow>
                 if solutionData = [] then Inl SolutionDataNotFound
                 else parse_solution solutionData))"

subsection \<open>An invariant of the parser\<close>

text \<open>The states of the parser from which the empty array can no longer be the result.\<close>

fun settled :: "mode \<times> frame list \<Rightarrow> bool" where
  "settled (Done v, fs) = (v \<noteq> JArray [])"
| "settled (ValueOrEnd, fs) = (2 \<le> length fs)"
| "settled (CommaOrEnd, fs) = (fs \<noteq> [] \<and> (\<forall>vs. fs = [FArray vs] \<longrightarrow> vs \<noteq> []))"
| "settled (m, fs) = (fs \<noteq> [])"

subsection \<open>Sample texts\<close>

text \<open>A text whose escaped entry does not parse while its plain entry would, and a text
  whose escaped entry is the empty list.\<close>

definition unparseable_first :: string where
  "unparseable_first = KEY_ESCAPED @ ''x]'' @ KEY_PLAIN @ ''4,5]''"

definition empty_first :: string where
  "empty_first = ''{'' @ KEY_ESCAPED @ '']}'' @ KEY_PLAIN @ ''4,5]''"

text \<open>A text whose plain entry with a negative number comes after an escaped entry, and
  one where it stands alone.\<close>

definition shadowed_negative :: string where
  "shadowed_negative = KEY_ESCAPED @ ''7]'' @ KEY_PLAIN @ ''1,-2,3]''"

definition plain_negative :: string where
  "plain_negative = ''{'' @ KEY_PLAIN @ ''1,-2,3]'' @ ''}''"

section \<open>Content script (the page agent): the solve cycle\<close>

subsection \<open>Constants\<close>

definition CLICK_DELAY_MS :: nat where
  "CLICK_DELAY_MS = 100"

definition NOTIFICATION_DURATION_MS :: nat where
  "NOTIFICATION_DURATION_MS = 3000"

definition NOTIFICATION_ANIMATION_MS :: nat where
  "NOTIFICATION_ANIMATION_MS = 300"

subsection \<open>The page and the state of the script\<close>

text \<open>What \<open>document.querySelector\<close> finds for a cell number, and whether dispatching the
  events on the element goes through (\<open>Element False\<close>: it throws).\<close>

datatype lookup = NoElement | Element bool

record page =
  rehydrate_data :: "string option"
  cells :: "json \<Rightarrow> lookup"
  body :: bool

datatype notification_type = SUCCESS | ERROR | INFO | WARNING

text \<open>The four messages the script shows.\<close>

datatype notice =
    SolvingGame
  | ErrorNotice error
  | SolvedWithErrors nat
  | SolvedSuccessfully

text \<open>
  The closures handed to \<open>addTimeout\<close>. A call of \<open>applySolution\<close> has its own counters and
  its own promise; they live in the store \<open>replays\<close>, and the callbacks of the call carry its
  index there. \<open>Click r cellNumber index n\<close> is the step callback (\<open>n\<close> is
  \<open>solution.length\<close>), \<open>Finish r\<close> the inner callback of the last step.
\<close>

datatype callback =
    Click nat json nat nat
  | Finish nat
  | HideNotification nat
  | RemoveNotification nat

text \<open>\<open>reported\<close> holds the two counts of the line \<open>Game solved!\<close> once the
  inner callback has logged it.\<close>

record replay =
  completedClicks :: nat
  failedClicks :: nat
  reported :: "(nat \<times> nat) option"
  resolved :: bool

text \<open>A pending timer of the window: its identifier, the time it is due, its callback.\<close>

type_synonym timer = "nat \<times> nat \<times> callback"

record agent =
  activeTimeouts :: "nat list"
  timers :: "timer list"
  next_timeout :: nat
  clock :: nat
  replays :: "replay list"
  notification :: "nat option"
  next_notification :: nat
  shown :: "(notice \<times> notification_type) list"
  clicks :: "(json \<times> bool) list"

definition clearAllTimeouts :: "agent \<Rightarrow> agent" where
  "clearAllTimeouts st =
     st\<lparr>timers := filter (\<lambda>(i, due, cb). i \<notin> set (activeTimeouts st)) (timers st),
        activeTimeouts := []\<rparr>"

definition addTimeout :: "callback \<Rightarrow> nat \<Rightarrow> agent \<Rightarrow> agent" where
  "addTimeout cb delay st =
     st\<lparr>timers := timers st @ [(next_timeout st, clock st + delay, cb)],
        activeTimeouts := activeTimeouts st @ [next_timeout st],
        next_timeout := Suc (next_timeout st)\<rparr>"

subsection \<open>Notifications\<close>

text \<open>\<open>notification st\<close> is the notification element that is in the document, if any.\<close>

definition showNotification :: "page \<Rightarrow> notice \<Rightarrow> notification_type \<Rightarrow> agent \<Rightarrow> agent" where
  "showNotification pg msg ty st =
     (let n = next_notification st;
          st1 = st\<lparr>notification := None, next_notification := Suc n\<rparr>
      in if body pg then
           addTimeout (HideNotification n) NOTIFICATION_DURATION_MS
             (st1\<lparr>notification := Some n, shown := shown st1 @ [(msg, ty)]\<rparr>)
         else st1)"

definition hideNotification :: "nat \<Rightarrow> agent \<Rightarrow> agent" where
  "hideNotification n st =
     (if notification st = Some n then addTimeout (RemoveNotification n) NOTIFICATION_ANIMATION_MS st
      else st)"

subsection \<open>Replay\<close>

definition clickCell :: "page \<Rightarrow> json \<Rightarrow> bool" where
  "clickCell pg cellNumber = (case cells pg cellNumber of NoElement \<Rightarrow> False | Element ok \<Rightarrow> ok)"

fun schedule_steps :: "nat \<Rightarrow> nat \<Rightarrow> nat \<Rightarrow> json list \<Rightarrow> agent \<Rightarrow> agent" where
  "schedule_steps r n index [] st = st"
| "schedule_steps r n index (cellNumber # rest) st =
     schedule_steps r n (Suc index) rest
       (addTimeout (Click r cellNumber index n) (index * CLICK_DELAY_MS) st)"

text \<open>\<open>applySolution\<close> returns the index of its promise: the promise is settled when
  \<open>resolved\<close> is set there.\<close>

definition applySolution :: "json list \<Rightarrow> agent \<Rightarrow> nat \<times> agent" where
  "applySolution solution st =
     (let r = length (replays st);
          st1 = st\<lparr>replays := replays st
                   @ [\<lparr>completedClicks = 0, failedClicks = 0, reported = None,
                        resolved = False\<rparr>]\<rparr>
      in (r, schedule_steps r (length solution) 0 solution st1))"

subsection \<open>The timers of the window\<close>

fun run_callback :: "page \<Rightarrow> callback \<Rightarrow> agent \<Rightarrow> agent" where
  "run_callback pg (Click r cellNumber index n) st =
     (let success = clickCell pg cellNumber;
          c = replays st ! r;
          c' = (if success then c\<lparr>completedClicks := Suc (completedClicks c)\<rparr>
                else c\<lparr>failedClicks := Suc (failedClicks c)\<rparr>);
          st1 = st\<lparr>replays := (replays st)[r := c'],
                   clicks := clicks st @ [(cellNumber, success)]\<rparr>
      in if Suc index = n then addTimeout (Finish r) CLICK_DELAY_MS st1 else st1)"
| "run_callback pg (Finish r) st =
     (let c = replays st ! r;
          st1 = (if 0 < failedClicks c
                 then showNotification pg (SolvedWithErrors (failedClicks c)) WARNING st
                 else showNotification pg SolvedSuccessfully SUCCESS st)
      in st1\<lparr>replays := (replays st1)
                 [r := c\<lparr>reported := Some (completedClicks c, failedClicks c),
                         resolved := True\<rparr>]\<rparr>)"
| "run_callback pg (HideNotification n) st = hideNotification n st"
| "run_callback pg (RemoveNotification n) st =
     (if notification st = Some n then st\<lparr>notification := None\<rparr> else st)"

text \<open>The timer that fires next: the earliest one, the one set first among equals.\<close>

fun earliest :: "timer list \<Rightarrow> timer option" where
  "earliest [] = None"
| "earliest (t # ts) =
     (case earliest ts of
        None \<Rightarrow> Some t
      | Some u \<Rightarrow> if fst (snd t) \<le> fst (snd u) then Some t else Some u)"

text \<open>Firing a timer: it leaves the table, the time moves on, the wrapper of \<open>addTimeout\<close>
  runs the callback and then takes the identifier out of \<open>activeTimeouts\<close>.\<close>

definition fire :: "page \<Rightarrow> timer \<Rightarrow> agent \<Rightarrow> agent" where
  "fire pg t st =
     (let st1 = run_callback pg (snd (snd t))
                  (st\<lparr>timers := remove1 t (timers st), clock := max (clock st) (fst (snd t))\<rparr>)
      in st1\<lparr>activeTimeouts := filter (\<lambda>i. i \<noteq> fst t) (activeTimeouts st1)\<rparr>)"

text \<open>How many timers a callback can still cause, itself included.\<close>

fun weight :: "callback \<Rightarrow> nat" where
  "weight (Click r cellNumber index n) = (if Suc index = n then 4 else 1)"
| "weight (Finish r) = 3"
| "weight (HideNotification n) = 2"
| "weight (RemoveNotification n) = 1"

definition pending_weight :: "agent \<Rightarrow> nat" where
  "pending_weight st = sum_list (map (\<lambda>t. weight (snd (snd t))) (timers st))"

function run_timers :: "page \<Rightarrow> agent \<Rightarrow> agent" where
  "run_timers pg st =
     (case earliest (timers st) of
        None \<Rightarrow> st
      | Some t \<Rightarrow> run_timers pg (fire pg t st))"
  by pat_completeness auto
termination
proof (relation "measure (\<lambda>(pg, st). pending_weight st)")
  show "wf (measure (\<lambda>(pg, st). pending_weight st))" by simp
  have mem: "t \<in> set ts" if "earliest ts = Some t" for t ts
    using that by (induction ts arbitrary: t) (auto split: option.splits if_splits)
  have add: "pending_weight (addTimeout cb d s) = pending_weight s + weight cb" for cb d s
    by (simp add: pending_weight_def addTimeout_def)
  have cb: "pending_weight (run_callback pg c s) + 1 \<le> pending_weight s + weight c" for pg c s
    by (cases c)
       (simp_all add: Let_def showNotification_def hideNotification_def pending_weight_def
          addTimeout_def)
  show "((pg, fire pg t st), (pg, st)) \<in> measure (\<lambda>(pg, st). pending_weight st)"
    if "earliest (timers st) = Some t" for pg st t
  proof -
    let ?s = "st\<lparr>timers := remove1 t (timers st), clock := max (clock st) (fst (snd t))\<rparr>"
    have "pending_weight st = weight (snd (snd t)) + pending_weight ?s"
      using mem [OF that] by (simp add: pending_weight_def sum_list_map_remove1)
    moreover have "pending_weight (fire pg t st) = pending_weight (run_callback pg (snd (snd t)) ?s)"
      by (simp add: fire_def pending_weight_def Let_def)
    ultimately show ?thesis
      using cb [of pg "snd (snd t)" ?s] by simp
  qed
qed

declare run_timers.simps [simp del]

subsection \<open>\<open>solveZipGame\<close> and the message listener\<close>

text \<open>How the promise a call returns is settled: fulfilled, rejected with an error, or
  fulfilled when the promise of a replay is.\<close>

datatype settlement = Fulfilled | Rejected error | Awaiting nat

text \<open>The \<open>catch\<close> block of \<open>solveZipGame\<close>: the error is logged and shown, and the
  function returns normally.\<close>

definition caught :: "page \<Rightarrow> error \<Rightarrow> agent \<Rightarrow> agent \<times> settlement" where
  "caught pg e st = (showNotification pg (ErrorNotice e) ERROR st, Fulfilled)"

text \<open>The body of \<open>solveZipGame\<close> after \<open>extractSolution\<close> has returned or thrown.\<close>

definition solve_with :: "page \<Rightarrow> error + json list \<Rightarrow> agent \<Rightarrow> agent \<times> settlement" where
  "solve_with pg extracted st =
     (case extracted of
        Inl e \<Rightarrow> caught pg e st
      | Inr solution \<Rightarrow>
          if solution = [] then caught pg SolutionEmptyOrInvalid st
          else
            (case applySolution solution (showNotification pg SolvingGame INFO st) of
               (r, st1) \<Rightarrow> (st1, Awaiting r)))"

definition solveZipGame :: "page \<Rightarrow> agent \<Rightarrow> agent \<times> settlement" where
  "solveZipGame pg st = solve_with pg (extractSolution (rehydrate_data pg)) (clearAllTimeouts st)"

definition isPageReady :: "page \<Rightarrow> bool" where
  "isPageReady pg =
     (case rehydrate_data pg of None \<Rightarrow> False | Some t \<Rightarrow> t \<noteq> [] \<and> 100 < length t)"

datatype request = CheckReady | SolvePuzzle | OtherAction

datatype reply = ReadyReply bool | SolveReply bool "error option"

text \<open>
  The listener, with the reply it sends through \<open>sendResponse\<close>; for the solve command
  that is once the promise of \<open>solveZipGame\<close> is settled, so the timers are run until none
  is left. \<open>None\<close>: no reply is ever sent.
\<close>

definition onMessage :: "request \<Rightarrow> page \<Rightarrow> agent \<Rightarrow> agent \<times> reply option" where
  "onMessage req pg st =
     (case req of
        CheckReady \<Rightarrow> (st, Some (ReadyReply (isPageReady pg)))
      | SolvePuzzle \<Rightarrow>
          (case solveZipGame pg st of
             (st1, Fulfilled) \<Rightarrow> (st1, Some (SolveReply True None))
           | (st1, Rejected e) \<Rightarrow> (st1, Some (SolveReply False (Some e)))
           | (st1, Awaiting r) \<Rightarrow>
               (let st2 = run_timers pg st1
                in (st2, if resolved (replays st2 ! r) then Some (SolveReply True None) else None)))
      | OtherAction \<Rightarrow> (st, None))"

text \<open>The script as it is loaded, and two pages to run it on.\<close>

definition loaded :: agent where
  "loaded = \<lparr>activeTimeouts = [], timers = [], next_timeout = 0, clock = 0, replays = [],
             notification = None, next_notification = 0, shown = [], clicks = []\<rparr>"

definition no_data_page :: page where
  "no_data_page = \<lparr>rehydrate_data = None, cells = (\<lambda>c. NoElement), body = True\<rparr>"

text \<open>A page with the solution 0, 1, 2 whose cell 1 is missing.\<close>

definition gap_page :: page where
  "gap_page =
     \<lparr>rehydrate_data = Some (''{'' @ KEY_ESCAPED @ ''0,1,2]}''),
      cells = (\<lambda>c. if c = JNumber 1 then NoElement else Element True),
      body = True\<rparr>"

section \<open>Properties of the tab controller\<close>

lemma sendMessageWithInjection_calls:
  "\<exists>rest. calls (fst (sendMessageWithInjection br tabId msg st))
           = calls st @ SendMessage tabId msg # rest"
  by (simp add: sendMessageWithInjection_def sendMessageToTab_def invoke_def
      injectContentScript_def wait_def split: sum.split)

lemma showErrorBadge_calls:
  "\<exists>rest. calls (showErrorBadge br tabId st) = calls st @ rest"
  by (simp add: showErrorBadge_def invoke_def wait_def split: sum.split)

lemma dispatch_calls:
  "\<exists>rest. calls (fst (dispatch br tabId st)) = calls st @ SendMessage tabId SOLVE_PUZZLE # rest"
proof -
  obtain st1 r where s: "sendMessageWithInjection br tabId SOLVE_PUZZLE st = (st1, r)"
    by (cases "sendMessageWithInjection br tabId SOLVE_PUZZLE st")
  obtain rest where c1: "calls st1 = calls st @ SendMessage tabId SOLVE_PUZZLE # rest"
    using sendMessageWithInjection_calls [of br tabId SOLVE_PUZZLE st] s by auto
  show ?thesis
  proof (cases r)
    case (Inl e)
    obtain rest' where "calls (showErrorBadge br tabId st1) = calls st1 @ rest'"
      using showErrorBadge_calls by blast
    then show ?thesis by (simp add: dispatch_def s Inl failed_def c1)
  next
    case (Inr resp)
    then show ?thesis
      by (simp add: dispatch_def s c1 split: response.split bool.split option.split)
  qed
qed

lemma polling_Suc:
  "polling tabId (Suc n) =
     [SetBadgeText BADGE_CLEAR tabId, SendMessage tabId CHECK_READY, SetTimeout RETRY_DELAY_MS]
     @ polling tabId n"
  by (simp add: polling_def)

lemma solvePuzzleInTab_retry:
  assumes badge: "\<forall>k. \<exists>r. br k (SetBadgeText BADGE_CLEAR tabId) = Inr r"
    and ready: "\<forall>k. br k (SendMessage tabId CHECK_READY) = Inr (ReadyResponse False)"
  shows "solvePuzzleInTab br tabId (Suc n) st =
         solvePuzzleInTab br tabId n
           (st\<lparr>calls := calls st @ [SetBadgeText BADGE_CLEAR tabId,
                 SendMessage tabId CHECK_READY, SetTimeout RETRY_DELAY_MS]\<rparr>)"
proof -
  obtain r where r: "br (length (calls st)) (SetBadgeText BADGE_CLEAR tabId) = Inr r"
    using badge by blast
  show ?thesis
    by (subst solvePuzzleInTab.simps)
       (simp add: invoke_def r ready checkReady_def sendMessageToTab_def wait_def)
qed

lemma solvePuzzleInTab_never_ready:
  assumes badge: "\<forall>k. \<exists>r. br k (SetBadgeText BADGE_CLEAR tabId) = Inr r"
    and ready: "\<forall>k. br k (SendMessage tabId CHECK_READY) = Inr (ReadyResponse False)"
  shows "solvePuzzleInTab br tabId n st
         = dispatch br tabId (st\<lparr>calls := calls st @ polling tabId n\<rparr>)"
proof (induction n arbitrary: st)
  case 0
  obtain r where r: "br (length (calls st)) (SetBadgeText BADGE_CLEAR tabId) = Inr r"
    using badge by blast
  show ?case
    by (subst solvePuzzleInTab.simps)
       (simp add: invoke_def r ready checkReady_def sendMessageToTab_def polling_def)
next
  case (Suc n)
  show ?case
    by (simp add: solvePuzzleInTab_retry [OF badge ready] Suc.IH polling_Suc)
qed

lemma count_polling_check:
  "count_list (polling tabId n) (SendMessage tabId CHECK_READY) = Suc n"
  by (induction n) (simp_all add: polling_Suc, simp add: polling_def)

lemma count_polling_wait:
  "count_list (polling tabId n) (SetTimeout RETRY_DELAY_MS) = n"
  by (induction n) (simp_all add: polling_Suc, simp add: polling_def)

text \<open>
  Claim C6. When every readiness query is answered \<open>{ready: false}\<close> (and the badge can
  be cleared), one unsuccessful check with budget left costs one unit of the budget and one
  retry delay; started with the budget \<open>MAX_RETRIES = 10\<close> the polling makes 11 checks
  and exactly 10 retries, and then the cycle does not fail: it goes on to send the solve
  message, whose outcome is the outcome of the cycle.
\<close>

theorem polling_exhausts_budget_then_dispatches:
  assumes badge: "\<forall>k. \<exists>r. br k (SetBadgeText BADGE_CLEAR tabId) = Inr r"
    and ready: "\<forall>k. br k (SendMessage tabId CHECK_READY) = Inr (ReadyResponse False)"
  shows "MAX_RETRIES = 10
       \<and> (\<forall>n s. solvePuzzleInTab br tabId (Suc n) s =
               solvePuzzleInTab br tabId n
                 (s\<lparr>calls := calls s @ [SetBadgeText BADGE_CLEAR tabId,
                       SendMessage tabId CHECK_READY, SetTimeout RETRY_DELAY_MS]\<rparr>))
       \<and> solvePuzzleInTab br tabId MAX_RETRIES st
           = dispatch br tabId (st\<lparr>calls := calls st @ polling tabId MAX_RETRIES\<rparr>)
       \<and> count_list (polling tabId MAX_RETRIES) (SendMessage tabId CHECK_READY) = 11
       \<and> count_list (polling tabId MAX_RETRIES) (SetTimeout RETRY_DELAY_MS) = 10
       \<and> (\<exists>rest. calls (fst (solvePuzzleInTab br tabId MAX_RETRIES st))
              = calls st @ polling tabId MAX_RETRIES @ SendMessage tabId SOLVE_PUZZLE # rest)"
proof -
  have d: "solvePuzzleInTab br tabId MAX_RETRIES st
           = dispatch br tabId (st\<lparr>calls := calls st @ polling tabId MAX_RETRIES\<rparr>)"
    by (rule solvePuzzleInTab_never_ready [OF badge ready])
  have e: "\<exists>rest. calls (fst (solvePuzzleInTab br tabId MAX_RETRIES st))
              = calls st @ polling tabId MAX_RETRIES @ SendMessage tabId SOLVE_PUZZLE # rest"
    using dispatch_calls [of br tabId "st\<lparr>calls := calls st @ polling tabId MAX_RETRIES\<rparr>"]
    by (simp add: d)
  have r: "\<forall>n s. solvePuzzleInTab br tabId (Suc n) s =
               solvePuzzleInTab br tabId n
                 (s\<lparr>calls := calls s @ [SetBadgeText BADGE_CLEAR tabId,
                       SendMessage tabId CHECK_READY, SetTimeout RETRY_DELAY_MS]\<rparr>)"
    using solvePuzzleInTab_retry [OF badge ready] by blast
  have c1: "count_list (polling tabId MAX_RETRIES) (SendMessage tabId CHECK_READY) = 11"
    by (simp add: count_polling_check MAX_RETRIES_def)
  have c2: "count_list (polling tabId MAX_RETRIES) (SetTimeout RETRY_DELAY_MS) = 10"
    by (simp add: count_polling_wait MAX_RETRIES_def)
  show ?thesis using d e r c1 c2 by (simp add: MAX_RETRIES_def)
qed

theorem polling_exhausts_budget_then_dispatches_witness:
  "(\<forall>k. \<exists>r. scripted_browser never_ready k (SetBadgeText BADGE_CLEAR 7) = Inr r)
   \<and> (\<forall>k. scripted_browser never_ready k (SendMessage 7 CHECK_READY) = Inr (ReadyResponse False))
   \<and> solvePuzzleInTab (scripted_browser never_ready) 7 MAX_RETRIES fresh
       = (fresh\<lparr>calls := polling 7 MAX_RETRIES @ [SendMessage 7 SOLVE_PUZZLE]\<rparr>, SolvingStarted)
   \<and> length (polling 7 MAX_RETRIES) = 32"
proof -
  have b: "\<forall>k. \<exists>r. scripted_browser never_ready k (SetBadgeText BADGE_CLEAR 7) = Inr r"
    by (simp add: scripted_browser_def never_ready_def)
  have r: "\<forall>k. scripted_browser never_ready k (SendMessage 7 CHECK_READY) = Inr (ReadyResponse False)"
    by (simp add: scripted_browser_def never_ready_def)
  have "solvePuzzleInTab (scripted_browser never_ready) 7 MAX_RETRIES fresh
        = dispatch (scripted_browser never_ready) 7
            (fresh\<lparr>calls := calls fresh @ polling 7 MAX_RETRIES\<rparr>)"
    using polling_exhausts_budget_then_dispatches [OF b r, of fresh] by blast
  also have "\<dots> = (fresh\<lparr>calls := polling 7 MAX_RETRIES @ [SendMessage 7 SOLVE_PUZZLE]\<rparr>, SolvingStarted)"
    by (simp add: dispatch_def sendMessageWithInjection_def sendMessageToTab_def invoke_def
        scripted_browser_def never_ready_def fresh_def)
  finally have s: "solvePuzzleInTab (scripted_browser never_ready) 7 MAX_RETRIES fresh
        = (fresh\<lparr>calls := polling 7 MAX_RETRIES @ [SendMessage 7 SOLVE_PUZZLE]\<rparr>, SolvingStarted)" .
  have l: "length (polling 7 MAX_RETRIES) = 32"
    by (simp add: polling_def MAX_RETRIES_def length_concat sum_list_replicate)
  show ?thesis using b r s l by blast
qed

lemma dispatch_failure:
  "snd (sendMessageWithInjection br tabId SOLVE_PUZZLE st) = Inl e
   \<Longrightarrow> snd (dispatch br tabId st) = OperationFailed e"
  by (cases "sendMessageWithInjection br tabId SOLVE_PUZZLE st") (simp add: dispatch_def failed_def)

text \<open>
  Claim C7. When the first send of a message finds no agent, \<open>sendMessageWithInjection\<close>
  injects the agent exactly once. If the injection fails, its error is the result and nothing
  is sent again; otherwise the message is sent exactly once more, after the injection delay,
  and the outcome of that send is the result, an error included. There is never a second
  injection or a third send, and an error of the solve message ends the cycle as failed.
\<close>

theorem sendMessageWithInjection_single_recovery:
  assumes unreachable: "br (length (calls st)) (SendMessage tabId msg) = Inl e"
  shows "(case br (Suc (length (calls st))) (ExecuteScript tabId) of
            Inl ie \<Rightarrow>
              sendMessageWithInjection br tabId msg st
                = (st\<lparr>calls := calls st @ [SendMessage tabId msg, ExecuteScript tabId]\<rparr>,
                   Inl (''Script injection error: '' @ ie))
          | Inr _ \<Rightarrow>
              sendMessageWithInjection br tabId msg st
                = (st\<lparr>calls := calls st @ [SendMessage tabId msg, ExecuteScript tabId,
                         SetTimeout SCRIPT_INJECTION_DELAY_MS, SendMessage tabId msg]\<rparr>,
                   br (Suc (Suc (Suc (length (calls st))))) (SendMessage tabId msg)))
       \<and> count_list (drop (length (calls st))
                        (calls (fst (sendMessageWithInjection br tabId msg st))))
                      (ExecuteScript tabId) = 1
       \<and> count_list (drop (length (calls st))
                        (calls (fst (sendMessageWithInjection br tabId msg st))))
                      (SendMessage tabId msg) \<le> 2
       \<and> (\<forall>e'. msg = SOLVE_PUZZLE \<and> snd (sendMessageWithInjection br tabId msg st) = Inl e'
              \<longrightarrow> snd (dispatch br tabId st) = OperationFailed e')"
proof -
  let ?new = "drop (length (calls st)) (calls (fst (sendMessageWithInjection br tabId msg st)))"
  have shape: "(case br (Suc (length (calls st))) (ExecuteScript tabId) of
            Inl ie \<Rightarrow>
              sendMessageWithInjection br tabId msg st
                = (st\<lparr>calls := calls st @ [SendMessage tabId msg, ExecuteScript tabId]\<rparr>,
                   Inl (''Script injection error: '' @ ie))
          | Inr _ \<Rightarrow>
              sendMessageWithInjection br tabId msg st
                = (st\<lparr>calls := calls st @ [SendMessage tabId msg, ExecuteScript tabId,
                         SetTimeout SCRIPT_INJECTION_DELAY_MS, SendMessage tabId msg]\<rparr>,
                   br (Suc (Suc (Suc (length (calls st))))) (SendMessage tabId msg)))"
    using unreachable
    by (simp add: sendMessageWithInjection_def sendMessageToTab_def invoke_def
        injectContentScript_def wait_def split: sum.split)
  have inj: "count_list ?new (ExecuteScript tabId) = 1"
    using shape by (cases "br (Suc (length (calls st))) (ExecuteScript tabId)") simp_all
  have snd: "count_list ?new (SendMessage tabId msg) \<le> 2"
    using shape by (cases "br (Suc (length (calls st))) (ExecuteScript tabId)") simp_all
  have surf: "\<forall>e'. msg = SOLVE_PUZZLE \<and> snd (sendMessageWithInjection br tabId msg st) = Inl e'
              \<longrightarrow> snd (dispatch br tabId st) = OperationFailed e'"
    using dispatch_failure by blast
  show ?thesis using shape inj snd surf by blast
qed

theorem sendMessageWithInjection_single_recovery_witness:
  "scripted_browser no_agent (length (calls fresh)) (SendMessage 7 SOLVE_PUZZLE)
     = Inl ''Could not establish connection. Receiving end does not exist.''
   \<and> sendMessageWithInjection (scripted_browser no_agent) 7 SOLVE_PUZZLE fresh
     = (fresh\<lparr>calls := [SendMessage 7 SOLVE_PUZZLE, ExecuteScript 7,
                SetTimeout SCRIPT_INJECTION_DELAY_MS, SendMessage 7 SOLVE_PUZZLE]\<rparr>,
        Inl ''Could not establish connection. Receiving end does not exist.'')
   \<and> snd (dispatch (scripted_browser no_agent) 7 fresh)
     = OperationFailed ''Could not establish connection. Receiving end does not exist.''"
proof -
  have u: "scripted_browser no_agent (length (calls fresh)) (SendMessage 7 SOLVE_PUZZLE)
     = Inl ''Could not establish connection. Receiving end does not exist.''"
    by (simp add: scripted_browser_def no_agent_def)
  have i: "scripted_browser no_agent (Suc (length (calls fresh))) (ExecuteScript 7) = Inr NoResponse"
    by (simp add: scripted_browser_def no_agent_def)
  have r: "scripted_browser no_agent (Suc (Suc (Suc (length (calls fresh))))) (SendMessage 7 SOLVE_PUZZLE)
     = Inl ''Could not establish connection. Receiving end does not exist.''"
    by (simp add: scripted_browser_def no_agent_def)
  note t = sendMessageWithInjection_single_recovery [where br = "scripted_browser no_agent" and st = fresh and tabId = 7 and msg = SOLVE_PUZZLE, OF u]
  have s: "sendMessageWithInjection (scripted_browser no_agent) 7 SOLVE_PUZZLE fresh
     = (fresh\<lparr>calls := [SendMessage 7 SOLVE_PUZZLE, ExecuteScript 7,
                SetTimeout SCRIPT_INJECTION_DELAY_MS, SendMessage 7 SOLVE_PUZZLE]\<rparr>,
        Inl ''Could not establish connection. Receiving end does not exist.'')"
    using t i r by (simp add: fresh_def)
  have d: "snd (dispatch (scripted_browser no_agent) 7 fresh)
     = OperationFailed ''Could not establish connection. Receiving end does not exist.''"
    using t s by simp
  show ?thesis using u s d by blast
qed

lemma other_tab_not_zip: "\<not> isLinkedInZipPage (tab_url (other_tab i))"
  by (simp add: other_tab_def isLinkedInZipPage_def LINKEDIN_ZIP_URL_PATTERN_def)

lemma zip_tab_zip: "isLinkedInZipPage (tab_url (zip_tab i))"
  by (simp add: zip_tab_def isLinkedInZipPage_def LINKEDIN_ZIP_URL_PATTERN_def LINKEDIN_ZIP_URL_def)

text \<open>
  Claim C8. \<open>pendingSolveTabId\<close> is one optional tab identifier, never a collection.
  After a trigger on tab \<open>a\<close> and then a trigger on another tab \<open>b\<close>, both away from
  the game page (and the browser accepting the calls of the second trigger), the slot holds
  \<open>b\<close> only: an update event of tab \<open>a\<close>, whatever its status, changes nothing and
  starts no solve cycle, while the completed navigation of tab \<open>b\<close> starts one.
\<close>

theorem pending_slot_overwritten:
  assumes ids: "tab_id ta = Some a" "tab_id tb = Some b" "a \<noteq> 0" "b \<noteq> 0" "a \<noteq> b"
    and urls: "\<not> isLinkedInZipPage (tab_url ta)" "\<not> isLinkedInZipPage (tab_url tb)"
    and ok: "\<forall>k c. c \<in> {SetBadgeText BADGE_LOADING b, SetBadgeBackgroundColor ''#3b82f6'' b,
                         TabsUpdate b LINKEDIN_ZIP_URL} \<longrightarrow> (\<exists>r. br k c = Inr r)"
  shows "(let st2 = fst (handleActionClick br (Some tb) (fst (handleActionClick br (Some ta) st)))
          in pendingSolveTabId st2 = Some b
           \<and> handleTabUpdate br a status t st2 = (st2, None)
           \<and> (isLinkedInZipPage (tab_url t) \<longrightarrow>
                handleTabUpdate br b StatusComplete t st2
                  = (case solvePuzzleInTab br b MAX_RETRIES
                            (wait PAGE_LOAD_DELAY_MS (st2\<lparr>pendingSolveTabId := None\<rparr>)) of
                       (s, r) \<Rightarrow> (s, Some r))))"
proof -
  define st1 where "st1 = fst (handleActionClick br (Some ta) st)"
  define st2 where "st2 = fst (handleActionClick br (Some tb) st1)"
  obtain r1 where r1: "br (length (calls st1)) (SetBadgeText BADGE_LOADING b) = Inr r1"
    using ok by blast
  obtain r2 where r2: "br (Suc (length (calls st1))) (SetBadgeBackgroundColor ''#3b82f6'' b) = Inr r2"
    using ok by blast
  obtain r3 where r3: "br (Suc (Suc (length (calls st1)))) (TabsUpdate b LINKEDIN_ZIP_URL) = Inr r3"
    using ok by blast
  have p: "pendingSolveTabId st2 = Some b"
    using ids urls r1 r2 r3 unfolding st2_def
    by (simp add: handleActionClick_def invoke_def)
  have u: "handleTabUpdate br a status t st2 = (st2, None)"
    using p ids by (simp add: handleTabUpdate_def)
  have v: "isLinkedInZipPage (tab_url t) \<longrightarrow>
            handleTabUpdate br b StatusComplete t st2
              = (case solvePuzzleInTab br b MAX_RETRIES
                        (wait PAGE_LOAD_DELAY_MS (st2\<lparr>pendingSolveTabId := None\<rparr>)) of
                   (s, r) \<Rightarrow> (s, Some r))"
    using p by (simp add: handleTabUpdate_def solvePuzzleInTabWithRetry_def)
  show ?thesis using p u v unfolding st2_def st1_def by (simp add: Let_def)
qed

theorem pending_slot_overwritten_witness:
  "tab_id (other_tab 1) = Some 1 \<and> tab_id (other_tab 2) = Some 2
   \<and> (1::nat) \<noteq> 0 \<and> (2::nat) \<noteq> 0 \<and> (1::nat) \<noteq> 2
   \<and> \<not> isLinkedInZipPage (tab_url (other_tab 1)) \<and> \<not> isLinkedInZipPage (tab_url (other_tab 2))
   \<and> isLinkedInZipPage (tab_url (zip_tab 1))
   \<and> pendingSolveTabId
         (fst (handleActionClick (scripted_browser never_ready) (Some (other_tab 2))
            (fst (handleActionClick (scripted_browser never_ready) (Some (other_tab 1)) fresh))))
       = Some 2
   \<and> snd (handleTabUpdate (scripted_browser never_ready) 1 StatusComplete (zip_tab 1)
         (fst (handleActionClick (scripted_browser never_ready) (Some (other_tab 2))
            (fst (handleActionClick (scripted_browser never_ready) (Some (other_tab 1)) fresh)))))
       = None"
proof -
  have ok: "\<forall>k c. c \<in> {SetBadgeText BADGE_LOADING 2, SetBadgeBackgroundColor ''#3b82f6'' 2,
                         TabsUpdate 2 LINKEDIN_ZIP_URL}
              \<longrightarrow> (\<exists>r. scripted_browser never_ready k c = Inr r)"
    by (auto simp: scripted_browser_def never_ready_def)
  have i1: "tab_id (other_tab 1) = Some 1" and i2: "tab_id (other_tab 2) = Some 2"
    by (simp_all add: other_tab_def)
  have n: "(1::nat) \<noteq> 0" "(2::nat) \<noteq> 0" "(1::nat) \<noteq> 2" by simp_all
  note t = pending_slot_overwritten [OF i1 i2 n other_tab_not_zip other_tab_not_zip ok,
      where st = fresh and status = StatusComplete and t = "zip_tab 1"]
  show ?thesis
    using t i1 i2 other_tab_not_zip zip_tab_zip by (simp add: Let_def)
qed

section \<open>Properties of the extraction\<close>

subsection \<open>Trimming and parsing\<close>

lemma json_space_white: "is_json_space c \<Longrightarrow> is_white_space c"
  by (auto simp: is_json_space_def is_white_space_def)

lemma trim_prefix:
  "dropWhile is_white_space s
   = trim s @ rev (takeWhile is_white_space (rev (dropWhile is_white_space s)))"
  unfolding trim_def by (metis rev_append rev_rev_ident takeWhile_dropWhile_id)

lemma trim_hd:
  assumes "trim s \<noteq> []"
  shows "\<not> is_white_space (hd (trim s))"
proof -
  let ?d = "dropWhile is_white_space s"
  have d: "?d \<noteq> []"
  proof
    assume e: "?d = []"
    have "trim s = []" unfolding trim_def e by simp
    with assms show False by simp
  qed
  then have "\<not> is_white_space (hd ?d)" by (rule hd_dropWhile)
  moreover have "hd ?d = hd (trim s)"
    using trim_prefix [of s] assms by (metis hd_append2)
  ultimately show ?thesis by simp
qed

lemma trim_Nil_iff: "trim s = [] \<longleftrightarrow> (\<forall>c \<in> set s. is_white_space c)"
proof
  assume t: "trim s = []"
  show "\<forall>c \<in> set s. is_white_space c"
  proof (rule ccontr)
    assume "\<not> (\<forall>c \<in> set s. is_white_space c)"
    then have d: "dropWhile is_white_space s \<noteq> []" by (simp add: dropWhile_eq_Nil_conv)
    then have "\<not> is_white_space (hd (dropWhile is_white_space s))" by (rule hd_dropWhile)
    moreover have "\<forall>c\<in>set (dropWhile is_white_space s). is_white_space c"
      using trim_prefix [of s] t
      by (metis append_Nil set_rev set_takeWhileD)
    ultimately show False using d by (meson hd_in_set)
  qed
next
  assume "\<forall>c \<in> set s. is_white_space c"
  then have e: "dropWhile is_white_space s = []" by (simp add: dropWhile_eq_Nil_conv)
  show "trim s = []" unfolding trim_def e by simp
qed

lemma tokenize_token: "\<not> is_json_space c \<Longrightarrow> tokenize (c # cs) \<noteq> Some []"
  by (simp split: option.split)

lemma tokenize_Nil: "tokenize s = Some [] \<Longrightarrow> \<forall>c \<in> set s. is_json_space c"
proof (induction s)
  case Nil
  then show ?case by simp
next
  case (Cons c cs)
  have sp: "is_json_space c" using Cons.prems tokenize_token by blast
  then have "tokenize cs = Some []" using Cons.prems by simp
  with Cons.IH sp show ?case by simp
qed

lemma tokenize_close:
  assumes "\<not> is_json_space c" and "tokenize (c # cs) = Some (TRBracket # ts)"
  shows "c = CHR '']'' \<and> tokenize cs = Some ts"
proof -
  have "c = CHR '']'' \<or> tokenize (c # cs) \<noteq> Some (TRBracket # ts)"
    using assms(1) by (simp split: option.split)
  with assms have c: "c = CHR '']''" by blast
  with assms show ?thesis by (simp add: is_json_space_def code_def)
qed

lemma put_settled:
  "put v fs = Some c \<Longrightarrow> (fs = [] \<longrightarrow> v \<noteq> JArray []) \<Longrightarrow> settled c"
  by (induction v fs rule: put.induct) auto

lemma begin_value_settled:
  "begin_value t fs = Some c \<Longrightarrow> fs \<noteq> [] \<Longrightarrow> settled c"
  by (cases t) (auto dest: put_settled simp: Suc_le_eq)

lemma end_container_settled:
  "end_container t fs = Some c \<Longrightarrow> 2 \<le> length fs \<or> (\<forall>vs. fs = [FArray vs] \<longrightarrow> vs \<noteq> [])
   \<Longrightarrow> settled c"
  by (induction t fs rule: end_container.induct) (auto dest!: put_settled)

lemma end_object_settled:
  "end_container TRBrace fs = Some c \<Longrightarrow> settled c"
  by (cases "(TRBrace, fs)" rule: end_container.cases) (auto dest: put_settled)

lemma step_settled:
  assumes s: "step m fs t = Some c" and g: "settled (m, fs)"
  shows "settled c"
proof (cases m)
  case Value
  with s g show ?thesis using begin_value_settled [of t fs c] by simp
next
  case ValueOrEnd
  show ?thesis
  proof (cases "t = TRBracket")
    case True
    with s g ValueOrEnd show ?thesis using end_container_settled [of t fs c] by simp
  next
    case False
    with s g ValueOrEnd have "begin_value t fs = Some c" and "fs \<noteq> []" by auto
    then show ?thesis by (rule begin_value_settled)
  qed
next
  case KeyOrEnd
  show ?thesis
  proof (cases "t = TRBrace")
    case True
    with s KeyOrEnd show ?thesis using end_object_settled [of fs c] by simp
  next
    case False
    with s g KeyOrEnd show ?thesis by (cases t) auto
  qed
next
  case Key
  with s g show ?thesis by (cases t) auto
next
  case (Colon k)
  with s g show ?thesis
    by (cases t; cases fs) (auto split: frame.splits option.splits)
next
  case CommaOrEnd
  have e: "settled c" if "end_container t fs = Some c"
  proof (rule end_container_settled [OF that])
    show "2 \<le> length fs \<or> (\<forall>vs. fs = [FArray vs] \<longrightarrow> vs \<noteq> [])"
      using g CommaOrEnd by simp
  qed
  show ?thesis
  proof (cases "t = TComma")
    case True
    with s g CommaOrEnd show ?thesis
      by (cases fs) (auto split: frame.splits option.splits)
  next
    case False
    with s CommaOrEnd have "end_container t fs = Some c"
      by (cases t; cases fs) (auto split: frame.splits option.splits)
    then show ?thesis by (rule e)
  qed
next
  case (Done v)
  with s show ?thesis by simp
qed

lemma parse_tokens_settled:
  "settled (m, fs) \<Longrightarrow> parse_tokens m fs ts \<noteq> Some (JArray [])"
proof (induction ts arbitrary: m fs)
  case Nil
  then show ?case by (cases m) auto
next
  case (Cons t ts)
  show ?case
  proof (cases "step m fs t")
    case None
    then show ?thesis by simp
  next
    case (Some c)
    obtain m' fs' where c: "c = (m', fs')" by (cases c)
    have "settled (m', fs')" using step_settled [OF Some Cons.prems] c by simp
    then show ?thesis using Cons.IH Some c by simp
  qed
qed

lemma JSON_parse_wrapped:
  assumes d: "d \<noteq> []" and h: "\<not> is_white_space (hd d)"
  shows "JSON_parse (''['' @ d @ '']'') \<noteq> Some (JArray [])"
proof
  assume p: "JSON_parse (''['' @ d @ '']'') = Some (JArray [])"
  obtain c rest where dc: "d = c # rest" using d by (cases d) auto
  have nc: "\<not> is_json_space c" using h dc json_space_white by auto
  from p obtain ts where ts: "tokenize (c # rest @ '']'') = Some ts"
    and r: "parse_tokens Value [] (TLBracket # ts) = Some (JArray [])"
    by (auto simp: JSON_parse_def dc is_json_space_def code_def split: option.splits)
  from tokenize_token [OF nc] ts obtain t ts' where tt: "ts = t # ts'"
    by (cases ts) auto
  show False
  proof (cases "t = TRBracket")
    case True
    with tokenize_close [OF nc] ts tt have e: "tokenize (rest @ '']'') = Some ts'"
      by blast
    from r tt True have "ts' = []" by (cases ts') auto
    with e have "is_json_space (CHR '']'')" using tokenize_Nil by fastforce
    then show False by (simp add: is_json_space_def code_def)
  next
    case False
    with r tt obtain c' where b: "begin_value t [FArray []] = Some c'"
      and r': "parse_tokens (fst c') (snd c') ts' = Some (JArray [])"
      by (auto split: option.splits)
    have "settled c'" using begin_value_settled [OF b] by simp
    then show False using parse_tokens_settled [of "fst c'" "snd c'" ts'] r' by simp
  qed
qed

subsection \<open>Matching\<close>

lemma strip_prefix_Some: "strip_prefix p s = Some r \<longleftrightarrow> s = p @ r"
  by (induction p s rule: strip_prefix.induct) auto

lemma strip_prefix_None: "strip_prefix p s = None \<longleftrightarrow> \<not> prefix p s"
  by (induction p s rule: strip_prefix.induct) auto

lemma leftmost_hit: "here s = Some g \<Longrightarrow> leftmost here s = Some g"
  by (cases s) simp_all

lemma leftmost_skip:
  "\<forall>i<length pre. here (drop i (pre @ s)) = None \<Longrightarrow> leftmost here (pre @ s) = leftmost here s"
proof (induction pre)
  case Nil
  then show ?case by simp
next
  case (Cons c pre)
  have "here (drop 0 ((c # pre) @ s)) = None" using Cons.prems by blast
  then have h: "here (c # pre @ s) = None" by simp
  have "\<forall>i<length pre. here (drop i (pre @ s)) = None"
  proof (intro allI impI)
    fix i assume "i < length pre"
    then have "here (drop (Suc i) ((c # pre) @ s)) = None" using Cons.prems by auto
    then show "here (drop i (pre @ s)) = None" by simp
  qed
  then show ?case using Cons.IH h by simp
qed

lemma leftmost_None:
  "\<forall>i. here (drop i s) = None \<Longrightarrow> leftmost here s = None"
proof (induction s)
  case Nil
  then show ?case by (metis drop_Nil leftmost.simps(1))
next
  case (Cons c s)
  have h: "here (c # s) = None" using Cons.prems [rule_format, of 0] by simp
  have "\<forall>i. here (drop i s) = None"
    using Cons.prems by (metis drop_Suc_Cons)
  then show ?case using Cons.IH h by simp
qed

lemma leftmost_Some_suffix:
  "leftmost here s = Some g \<Longrightarrow> \<exists>i. here (drop i s) = Some g"
proof (induction s)
  case Nil
  then show ?case by (metis drop_Nil leftmost.simps(1))
next
  case (Cons c s)
  show ?case
  proof (cases "here (c # s)")
    case None
    then have "leftmost here s = Some g" using Cons.prems by simp
    then obtain i where "here (drop i s) = Some g" using Cons.IH by blast
    then have "here (drop (Suc i) (c # s)) = Some g" by simp
    then show ?thesis by blast
  next
    case (Some a)
    then have "here (drop 0 (c # s)) = Some g" using Cons.prems by simp
    then show ?thesis by blast
  qed
qed

lemma escaped_match_close:
  assumes "regex_match ESCAPED raw = Some g"
  shows "CHR '']'' \<in> set raw"
proof -
  from assms obtain i where "at_escaped (drop i raw) = Some g"
    using leftmost_Some_suffix by fastforce
  then obtain rest where "drop i raw = KEY_ESCAPED @ rest" and "CHR '']'' \<in> set rest"
    by (auto simp: at_escaped_def lazy_group_def strip_prefix_Some split: option.splits if_splits)
  then have "CHR '']'' \<in> set (drop i raw)" by simp
  then show ?thesis by (meson in_set_dropD)
qed

lemma close_not_blank: "CHR '']'' \<in> set raw \<Longrightarrow> raw \<noteq> [] \<and> trim raw \<noteq> []"
proof -
  assume a: "CHR '']'' \<in> set raw"
  have "\<not> is_white_space (CHR '']'')" by (simp add: is_white_space_def code_def)
  with a have "trim raw \<noteq> []" using trim_Nil_iff by blast
  with a show ?thesis by auto
qed

lemma find_solution_cases:
  "find_solution raw =
     (if regex_match ESCAPED raw \<noteq> None then ([ESCAPED], regex_match ESCAPED raw)
      else if regex_match PLAIN raw \<noteq> None then ([ESCAPED, PLAIN], regex_match PLAIN raw)
      else ([ESCAPED, PLAIN, LOOSE], regex_match LOOSE raw))"
  by (simp add: find_solution_def try_pattern_def Let_def)


lemma bracketed_close: "bracketed rest = Some g \<Longrightarrow> CHR '']'' \<in> set rest"
proof -
  assume "bracketed rest = Some g"
  then have "length (takeWhile not_close rest) < length rest"
    by (simp add: bracketed_def Let_def split: if_splits)
  then have "takeWhile not_close rest \<noteq> rest" by (metis less_irrefl)
  then have "\<exists>c \<in> set rest. \<not> not_close c"
    unfolding takeWhile_eq_all_conv by blast
  then show ?thesis by (simp add: not_close_def)
qed

lemma lazy_dot_close: "lazy_dot s = Some g \<Longrightarrow> CHR '']'' \<in> set s"
proof (induction s)
  case Nil
  then show ?case using bracketed_close by fastforce
next
  case (Cons c s)
  show ?case
  proof (cases "bracketed (c # s)")
    case None
    with Cons.prems have "lazy_dot s = Some g" by (simp split: if_splits)
    with Cons.IH show ?thesis by simp
  next
    case (Some a)
    then show ?thesis using bracketed_close by blast
  qed
qed

lemma here_close:
  assumes "here = at_escaped \<or> here = at_plain \<or> here = at_loose" and "here s = Some g"
  shows "CHR '']'' \<in> set s"
proof -
  have "\<exists>k rest. s = k @ rest \<and> CHR '']'' \<in> set rest"
  proof -
    consider "here = at_escaped" | "here = at_plain" | "here = at_loose" using assms(1) by blast
    then show ?thesis
    proof cases
      case 1
      with assms(2) show ?thesis
        by (auto simp: at_escaped_def lazy_group_def strip_prefix_Some
            split: option.splits if_splits)
    next
      case 2
      with assms(2) obtain rest where "s = KEY_PLAIN @ rest" "bracketed rest = Some g"
        by (auto simp: at_plain_def strip_prefix_Some split: option.splits)
      then show ?thesis using bracketed_close by blast
    next
      case 3
      with assms(2) obtain rest where "s = ''solution'' @ rest" "lazy_dot rest = Some g"
        by (auto simp: at_loose_def strip_prefix_Some split: option.splits)
      then show ?thesis using lazy_dot_close by blast
    qed
  qed
  then show ?thesis by auto
qed

lemma match_close:
  assumes "regex_match p raw = Some g"
  shows "CHR '']'' \<in> set raw"
proof -
  define here where "here = (case p of ESCAPED \<Rightarrow> at_escaped | PLAIN \<Rightarrow> at_plain | LOOSE \<Rightarrow> at_loose)"
  have h: "here = at_escaped \<or> here = at_plain \<or> here = at_loose"
    by (cases p) (simp_all add: here_def)
  have "leftmost here raw = Some g" using assms by (cases p) (simp_all add: here_def)
  then obtain i where "here (drop i raw) = Some g" using leftmost_Some_suffix by blast
  then have "CHR '']'' \<in> set (drop i raw)" using here_close [OF h] by blast
  then show ?thesis by (meson in_set_dropD)
qed

lemma find_solution_match:
  assumes "snd (find_solution raw) = Some g"
  shows "\<exists>p. regex_match p raw = Some g"
proof (cases "regex_match ESCAPED raw")
  case (Some a)
  with assms have "regex_match ESCAPED raw = Some g" by (simp add: find_solution_cases)
  then show ?thesis by blast
next
  case None
  note e = None
  show ?thesis
  proof (cases "regex_match PLAIN raw")
    case (Some a)
    with assms e have "regex_match PLAIN raw = Some g" by (simp add: find_solution_cases)
    then show ?thesis by blast
  next
    case None
    with assms e have "regex_match LOOSE raw = Some g" by (simp add: find_solution_cases)
    then show ?thesis by blast
  qed
qed

lemma extract_matched:
  assumes "snd (find_solution raw) = Some g"
  shows "extractSolution (Some raw)
         = (if g = [] then Inl SolutionDataNotFound else parse_solution g)"
proof -
  obtain p where "regex_match p raw = Some g" using find_solution_match [OF assms] by blast
  then have "raw \<noteq> [] \<and> trim raw \<noteq> []" using match_close close_not_blank by blast
  then show ?thesis using assms by (simp add: extractSolution_def)
qed

text \<open>
  Claim C3. The patterns are tried in the order escaped, plain, loose, and the first one that
  matches ends the search: the patterns tried are the escaped one alone when it matches, the
  first two when only then the plain one matches, and all three otherwise. What the matching
  pattern captured is then parsed, and when that fails the extraction fails with that
  error; no later pattern is consulted.
\<close>

theorem first_match_wins:
  "find_solution raw =
     (if regex_match ESCAPED raw \<noteq> None then ([ESCAPED], regex_match ESCAPED raw)
      else if regex_match PLAIN raw \<noteq> None then ([ESCAPED, PLAIN], regex_match PLAIN raw)
      else ([ESCAPED, PLAIN, LOOSE], regex_match LOOSE raw))
   \<and> (\<forall>g e. snd (find_solution raw) = Some g \<and> g \<noteq> [] \<and> parse_solution g = Inl e
          \<longrightarrow> extractSolution (Some raw) = Inl e)"
  using extract_matched [of raw] by (simp add: find_solution_cases)

lemmas evaluate_parse =
  parse_solution_def trim_def JSON_parse_def lex_number_def lex_fraction_def lex_exponent_def
  is_digit_def code_def digits_value_def is_json_space_def is_white_space_def less_than_zero_def

lemma parse_x: "parse_solution ''x'' = Inl (CouldNotParse SyntaxError)"
  by (simp add: evaluate_parse)

lemma parse_4_5: "parse_solution ''4,5'' = Inr [JNumber 4, JNumber 5]"
  by (simp add: evaluate_parse)

lemma unparseable_first_escaped: "regex_match ESCAPED unparseable_first = Some ''x''"
  by code_simp

lemma unparseable_first_plain: "regex_match PLAIN unparseable_first = Some ''4,5''"
  by code_simp

theorem first_match_wins_witness:
  "snd (find_solution unparseable_first) = Some ''x'' \<and> ''x'' \<noteq> []
   \<and> parse_solution ''x'' = Inl (CouldNotParse SyntaxError)
   \<and> fst (find_solution unparseable_first) = [ESCAPED]
   \<and> extractSolution (Some unparseable_first) = Inl (CouldNotParse SyntaxError)
   \<and> regex_match PLAIN unparseable_first = Some ''4,5''
   \<and> parse_solution ''4,5'' = Inr [JNumber 4, JNumber 5]"
proof -
  note t = first_match_wins [of unparseable_first]
  have f: "find_solution unparseable_first = ([ESCAPED], Some ''x'')"
    using t unparseable_first_escaped by simp
  have "extractSolution (Some unparseable_first) = Inl (CouldNotParse SyntaxError)"
    using t f parse_x by simp
  then show ?thesis using f parse_x parse_4_5 unparseable_first_plain by simp
qed

subsection \<open>What the extraction returns\<close>

lemma parse_solution_Inr:
  assumes "parse_solution g = Inr sol"
  shows "trim g \<noteq> [] \<and> JSON_parse (''['' @ trim g @ '']'') = Some (JArray sol)
         \<and> \<not> list_ex invalid_cell sol"
proof -
  from assms have t: "trim g \<noteq> []"
    by (auto simp: parse_solution_def split: if_splits)
  from assms t obtain v where v: "JSON_parse (''['' @ trim g @ '']'') = Some v"
    by (cases "JSON_parse (''['' @ trim g @ '']'')") (auto simp: parse_solution_def split: if_splits)
  from assms t v show ?thesis
    by (cases v) (auto simp: parse_solution_def split: if_splits)
qed

lemma parse_solution_nonempty: "parse_solution g \<noteq> Inr []"
proof
  assume "parse_solution g = Inr []"
  then have t: "trim g \<noteq> []" and p: "JSON_parse (''['' @ trim g @ '']'') = Some (JArray [])"
    using parse_solution_Inr by blast+
  from JSON_parse_wrapped [OF t trim_hd [OF t]] p show False by simp
qed

lemma extractSolution_Inr:
  assumes "extractSolution el = Inr sol"
  shows "\<exists>raw g. el = Some raw \<and> snd (find_solution raw) = Some g \<and> g \<noteq> []
                \<and> parse_solution g = Inr sol"
proof -
  from assms obtain raw where r: "el = Some raw"
    by (cases el) (auto simp: extractSolution_def)
  from assms r obtain g where g: "snd (find_solution raw) = Some g"
    by (cases "snd (find_solution raw)") (auto simp: extractSolution_def split: if_splits)
  from assms r g have "g \<noteq> [] \<and> parse_solution g = Inr sol"
    by (auto simp: extractSolution_def split: if_splits)
  with r g show ?thesis by blast
qed

lemma extractSolution_nonempty: "extractSolution el \<noteq> Inr []"
  using extractSolution_Inr parse_solution_nonempty by blast

lemma solveZipGame_cases:
  "solveZipGame pg st =
     (case extractSolution (rehydrate_data pg) of
        Inl e \<Rightarrow> caught pg e (clearAllTimeouts st)
      | Inr sol \<Rightarrow>
          (case applySolution sol (showNotification pg SolvingGame INFO (clearAllTimeouts st)) of
             (r, st1) \<Rightarrow> (st1, Awaiting r)))"
proof (cases "extractSolution (rehydrate_data pg)")
  case (Inl e)
  then show ?thesis by (simp add: solveZipGame_def solve_with_def)
next
  case (Inr sol)
  then have "sol \<noteq> []" using extractSolution_nonempty by metis
  with Inr show ?thesis by (simp add: solveZipGame_def solve_with_def)
qed

text \<open>
  Claim C10. \<open>extractSolution\<close> never returns the empty list. When the escaped pattern
  matches with an empty group, as on \<open>\"solution\":[]\<close>, the extraction fails with
  \<open>Solution data not found\<close>, whatever the other patterns would find. The body of
  \<open>solveZipGame\<close> turns an empty solution into an error before \<open>applySolution\<close>, so
  a replay is only started, and awaited, on a non-empty solution; after a failed extraction
  no replay exists.
\<close>

theorem extraction_never_empty:
  "extractSolution el \<noteq> Inr []
   \<and> (regex_match ESCAPED raw = Some [] \<longrightarrow> extractSolution (Some raw) = Inl SolutionDataNotFound)
   \<and> solve_with pg (Inr []) st = caught pg SolutionEmptyOrInvalid st
   \<and> (\<forall>r st'. solveZipGame pg st = (st', Awaiting r) \<longrightarrow>
         (\<exists>sol. sol \<noteq> [] \<and> extractSolution (rehydrate_data pg) = Inr sol
            \<and> applySolution sol (showNotification pg SolvingGame INFO (clearAllTimeouts st))
                = (r, st')))
   \<and> (\<forall>e. extractSolution (rehydrate_data pg) = Inl e \<longrightarrow>
         solveZipGame pg st = caught pg e (clearAllTimeouts st)
         \<and> replays (fst (solveZipGame pg st)) = replays st)"
proof -
  have a: "extractSolution el \<noteq> Inr []"
    by (rule extractSolution_nonempty)
  have b: "regex_match ESCAPED raw = Some [] \<longrightarrow> extractSolution (Some raw) = Inl SolutionDataNotFound"
  proof
    assume m: "regex_match ESCAPED raw = Some []"
    then have "snd (find_solution raw) = Some []" by (simp add: find_solution_cases)
    then show "extractSolution (Some raw) = Inl SolutionDataNotFound"
      using extract_matched by simp
  qed
  have c: "solve_with pg (Inr []) st = caught pg SolutionEmptyOrInvalid st"
    by (simp add: solve_with_def)
  have d: "\<forall>r st'. solveZipGame pg st = (st', Awaiting r) \<longrightarrow>
         (\<exists>sol. sol \<noteq> [] \<and> extractSolution (rehydrate_data pg) = Inr sol
            \<and> applySolution sol (showNotification pg SolvingGame INFO (clearAllTimeouts st))
                = (r, st'))"
  proof (intro allI impI)
    fix r st' assume s: "solveZipGame pg st = (st', Awaiting r)"
    show "\<exists>sol. sol \<noteq> [] \<and> extractSolution (rehydrate_data pg) = Inr sol
            \<and> applySolution sol (showNotification pg SolvingGame INFO (clearAllTimeouts st))
                = (r, st')"
    proof (cases "extractSolution (rehydrate_data pg)")
      case (Inl e)
      with s show ?thesis by (simp add: solveZipGame_cases caught_def)
    next
      case (Inr sol)
      then have "sol \<noteq> []" using extractSolution_nonempty by metis
      with s Inr show ?thesis
        by (auto simp: solveZipGame_cases split: prod.splits)
    qed
  qed
  have e: "\<forall>e. extractSolution (rehydrate_data pg) = Inl e \<longrightarrow>
         solveZipGame pg st = caught pg e (clearAllTimeouts st)
         \<and> replays (fst (solveZipGame pg st)) = replays st"
    by (simp add: solveZipGame_cases caught_def showNotification_def addTimeout_def
        clearAllTimeouts_def Let_def)
  show ?thesis using a b c d e by blast
qed


lemma empty_first_escaped: "regex_match ESCAPED empty_first = Some []"
  by code_simp

lemma empty_first_plain: "regex_match PLAIN empty_first = Some ''4,5''"
  by code_simp

lemma gap_page_escaped:
  "regex_match ESCAPED (''{'' @ KEY_ESCAPED @ ''0,1,2]}'') = Some ''0,1,2''"
  by code_simp

lemma parse_0_1_2: "parse_solution ''0,1,2'' = Inr [JNumber 0, JNumber 1, JNumber 2]"
  by (simp add: evaluate_parse)

lemma gap_page_solution:
  "extractSolution (rehydrate_data gap_page) = Inr [JNumber 0, JNumber 1, JNumber 2]"
proof -
  have "snd (find_solution (''{'' @ KEY_ESCAPED @ ''0,1,2]}'')) = Some ''0,1,2''"
    using gap_page_escaped by (simp add: find_solution_cases)
  then show ?thesis
    using extract_matched [of "''{'' @ KEY_ESCAPED @ ''0,1,2]}''" "''0,1,2''"] parse_0_1_2
    by (simp add: gap_page_def)
qed

lemma gap_page_solve: "snd (solveZipGame gap_page loaded) = Awaiting 0"
  by (simp add: solveZipGame_cases gap_page_solution applySolution_def Let_def
      showNotification_def addTimeout_def clearAllTimeouts_def loaded_def split: prod.split)

theorem extraction_never_empty_witness:
  "regex_match ESCAPED empty_first = Some []
   \<and> extractSolution (Some empty_first) = Inl SolutionDataNotFound
   \<and> regex_match PLAIN empty_first = Some ''4,5''
   \<and> extractSolution (rehydrate_data no_data_page) = Inl GameDataNotFound
   \<and> solveZipGame no_data_page loaded = caught no_data_page GameDataNotFound (clearAllTimeouts loaded)
   \<and> replays (fst (solveZipGame no_data_page loaded)) = replays loaded
   \<and> solveZipGame gap_page loaded = (fst (solveZipGame gap_page loaded), Awaiting 0)
   \<and> extractSolution (rehydrate_data gap_page) = Inr [JNumber 0, JNumber 1, JNumber 2]"
proof -
  note t = extraction_never_empty [of None empty_first no_data_page loaded]
  note u = extraction_never_empty [of None empty_first gap_page loaded]
  have n: "extractSolution (rehydrate_data no_data_page) = Inl GameDataNotFound"
    by (simp add: no_data_page_def extractSolution_def)
  have g: "solveZipGame gap_page loaded = (fst (solveZipGame gap_page loaded), Awaiting 0)"
    using gap_page_solve by (metis prod.collapse)
  have "\<exists>sol. sol \<noteq> [] \<and> extractSolution (rehydrate_data gap_page) = Inr sol"
    using u g by blast
  have e: "extractSolution (Some empty_first) = Inl SolutionDataNotFound"
    using t empty_first_escaped by blast
  have c: "solveZipGame no_data_page loaded
             = caught no_data_page GameDataNotFound (clearAllTimeouts loaded)
           \<and> replays (fst (solveZipGame no_data_page loaded)) = replays loaded"
    using t n by blast
  show ?thesis
    using e c n g empty_first_escaped empty_first_plain gap_page_solution by blast
qed

subsection \<open>Single entries\<close>

lemma leftmost_first_key:
  assumes "\<forall>i<length pre. \<not> prefix key (drop i (pre @ key @ rest))"
    and here: "\<And>s. here s = (case strip_prefix key s of None \<Rightarrow> None | Some r \<Rightarrow> grp r)"
    and g: "grp rest = Some g"
  shows "leftmost here (pre @ key @ rest) = Some g"
proof -
  have "\<forall>i<length pre. here (drop i (pre @ key @ rest)) = None"
    using assms(1) by (simp add: here strip_prefix_None [symmetric])
  then have "leftmost here (pre @ key @ rest) = leftmost here (key @ rest)"
    by (rule leftmost_skip)
  moreover have "strip_prefix key (key @ rest) = Some rest" by (simp add: strip_prefix_Some)
  then have "here (key @ rest) = Some g" by (simp add: here g)
  ultimately show ?thesis by (simp add: leftmost_hit)
qed

lemma parse_1_2_3: "parse_solution ''1,2,3'' = Inr [JNumber 1, JNumber 2, JNumber 3]"
  by (simp add: evaluate_parse)

lemma parse_negative: "parse_solution ''1,-2,3'' = Inl (CouldNotParse InvalidCellNumbers)"
  by (simp add: evaluate_parse)

text \<open>
  Claim C5. For a text that contains \<open>\"solution\":[1,2,3]\<close> (escaped quotes), valid in
  that no escaped key \<open>\"solution\":[\<close> begins before the one of this entry, the
  extraction succeeds and returns the numbers 1, 2, 3.
\<close>

theorem escaped_solution_extracted:
  assumes "\<forall>i<length pre. \<not> prefix KEY_ESCAPED (drop i (pre @ KEY_ESCAPED @ ''1,2,3]'' @ post))"
  shows "extractSolution (Some (pre @ KEY_ESCAPED @ ''1,2,3]'' @ post))
         = Inr [JNumber 1, JNumber 2, JNumber 3]"
proof -
  let ?raw = "pre @ KEY_ESCAPED @ ''1,2,3]'' @ post"
  have "lazy_group (''1,2,3]'' @ post) = Some ''1,2,3''"
    by (simp add: lazy_group_def not_close_def)
  then have "leftmost at_escaped ?raw = Some ''1,2,3''"
    using assms by (intro leftmost_first_key [where grp = lazy_group]) (simp_all add: at_escaped_def)
  then have "snd (find_solution ?raw) = Some ''1,2,3''" by (simp add: find_solution_cases)
  then show ?thesis using extract_matched [of ?raw "''1,2,3''"] parse_1_2_3 by simp
qed

theorem escaped_solution_extracted_witness:
  "\<not> prefix KEY_ESCAPED (''{'' @ KEY_ESCAPED @ ''1,2,3]'' @ ''}'')
   \<and> extractSolution (Some (''{'' @ KEY_ESCAPED @ ''1,2,3]'' @ ''}''))
       = Inr [JNumber 1, JNumber 2, JNumber 3]"
proof -
  have n: "\<not> prefix KEY_ESCAPED (''{'' @ KEY_ESCAPED @ ''1,2,3]'' @ ''}'')"
    by (simp add: KEY_ESCAPED_def)
  then have h: "\<forall>i<length ''{''. \<not> prefix KEY_ESCAPED (drop i (''{'' @ KEY_ESCAPED @ ''1,2,3]'' @ ''}''))"
    by simp
  show ?thesis using n escaped_solution_extracted [OF h] by blast
qed

lemma shadowed_negative_escaped: "regex_match ESCAPED shadowed_negative = Some ''7''"
  by code_simp

lemma parse_7: "parse_solution ''7'' = Inr [JNumber 7]"
  by (simp add: evaluate_parse)

text \<open>
  Claim C4, as stated, fails: a text can contain \<open>"solution":[1,-2,3]\<close> and still be
  extracted, because an escaped entry before it is matched first.
\<close>

theorem negative_entry_counterexample:
  "shadowed_negative = KEY_ESCAPED @ ''7]'' @ KEY_PLAIN @ ''1,-2,3]''
   \<and> extractSolution (Some shadowed_negative) = Inr [JNumber 7]"
proof -
  have "snd (find_solution shadowed_negative) = Some ''7''"
    using shadowed_negative_escaped by (simp add: find_solution_cases)
  then show ?thesis
    using extract_matched [of shadowed_negative "''7''"] parse_7
    by (simp add: shadowed_negative_def)
qed

lemma valid_cells:
  "\<not> list_ex invalid_cell sol \<Longrightarrow> \<forall>v \<in> set sol. \<exists>r. v = JNumber r \<and> \<not> less_than_zero r"
proof (intro ballI)
  fix v assume "\<not> list_ex invalid_cell sol" "v \<in> set sol"
  then have "\<not> invalid_cell v" by (auto simp: list_ex_iff)
  then show "\<exists>r. v = JNumber r \<and> \<not> less_than_zero r" by (cases v) auto
qed

text \<open>
  Claim C4, amended. When the escaped pattern does not match the text and no plain key
  \<open>"solution":[\<close> begins before the entry \<open>"solution":[1,-2,3]\<close>, the extraction
  fails with \<open>Could not parse solution: Solution contains invalid cell numbers\<close>. In
  general every element of a returned solution is a number that is not below zero, and a
  parsed list with one element that is negative or not a number makes the whole extraction
  fail.
\<close>

theorem negative_entry_rejected:
  "(regex_match ESCAPED (pre @ KEY_PLAIN @ ''1,-2,3]'' @ post) = None
      \<and> (\<forall>i<length pre. \<not> prefix KEY_PLAIN (drop i (pre @ KEY_PLAIN @ ''1,-2,3]'' @ post)))
    \<longrightarrow> extractSolution (Some (pre @ KEY_PLAIN @ ''1,-2,3]'' @ post))
         = Inl (CouldNotParse InvalidCellNumbers))
   \<and> (\<forall>sol. extractSolution el = Inr sol
         \<longrightarrow> (\<forall>v \<in> set sol. \<exists>r. v = JNumber r \<and> \<not> less_than_zero r))
   \<and> (\<forall>g vs. snd (find_solution raw) = Some g
            \<and> JSON_parse (''['' @ trim g @ '']'') = Some (JArray vs) \<and> list_ex invalid_cell vs
         \<longrightarrow> (\<exists>e. extractSolution (Some raw) = Inl e))"
proof -
  let ?raw = "pre @ KEY_PLAIN @ ''1,-2,3]'' @ post"
  have a: "extractSolution (Some ?raw) = Inl (CouldNotParse InvalidCellNumbers)"
    if e: "regex_match ESCAPED ?raw = None"
      and f: "\<forall>i<length pre. \<not> prefix KEY_PLAIN (drop i ?raw)"
  proof -
    have "bracketed (''1,-2,3]'' @ post) = Some ''1,-2,3''"
      by (simp add: bracketed_def not_close_def Let_def)
    then have "leftmost at_plain ?raw = Some ''1,-2,3''"
      using f by (intro leftmost_first_key [where grp = bracketed]) (simp_all add: at_plain_def)
    then have "snd (find_solution ?raw) = Some ''1,-2,3''" using e by (simp add: find_solution_cases)
    then show ?thesis using extract_matched [of ?raw "''1,-2,3''"] parse_negative by simp
  qed
  have b: "\<forall>v \<in> set sol. \<exists>r. v = JNumber r \<and> \<not> less_than_zero r"
    if "extractSolution el = Inr sol" for sol
  proof -
    from that obtain g where "parse_solution g = Inr sol" using extractSolution_Inr by blast
    then have "\<not> list_ex invalid_cell sol" using parse_solution_Inr by blast
    then show ?thesis by (rule valid_cells)
  qed
  have c: "\<exists>e. extractSolution (Some raw) = Inl e"
    if "snd (find_solution raw) = Some g" "JSON_parse (''['' @ trim g @ '']'') = Some (JArray vs)"
      "list_ex invalid_cell vs" for g vs
    using that extract_matched [of raw g] by (simp add: parse_solution_def)
  show ?thesis using a b c by blast
qed


lemma plain_negative_escaped: "regex_match ESCAPED plain_negative = None"
  by code_simp

lemma plain_negative_plain: "regex_match PLAIN plain_negative = Some ''1,-2,3''"
  by code_simp

lemma parse_negative_array:
  "JSON_parse (''['' @ trim ''1,-2,3'' @ '']'') = Some (JArray [JNumber 1, JNumber (- 2), JNumber 3])"
  by (simp add: evaluate_parse)

theorem negative_entry_rejected_witness:
  "regex_match ESCAPED plain_negative = None
   \<and> \<not> prefix KEY_PLAIN (''{'' @ KEY_PLAIN @ ''1,-2,3]'' @ ''}'')
   \<and> extractSolution (Some plain_negative) = Inl (CouldNotParse InvalidCellNumbers)
   \<and> extractSolution (rehydrate_data gap_page) = Inr [JNumber 0, JNumber 1, JNumber 2]
   \<and> \<not> less_than_zero 0 \<and> \<not> less_than_zero 1 \<and> \<not> less_than_zero 2
   \<and> snd (find_solution plain_negative) = Some ''1,-2,3''
   \<and> JSON_parse (''['' @ trim ''1,-2,3'' @ '']'')
       = Some (JArray [JNumber 1, JNumber (- 2), JNumber 3])
   \<and> invalid_cell (JNumber (- 2))"
proof -
  note t = negative_entry_rejected [of "''{''" "''}''" "rehydrate_data gap_page" plain_negative]
  have n: "\<not> prefix KEY_PLAIN (''{'' @ KEY_PLAIN @ ''1,-2,3]'' @ ''}'')"
    by (simp add: KEY_PLAIN_def)
  then have h: "\<forall>i<length ''{''. \<not> prefix KEY_PLAIN (drop i (''{'' @ KEY_PLAIN @ ''1,-2,3]'' @ ''}''))"
    by simp
  have e: "regex_match ESCAPED (''{'' @ KEY_PLAIN @ ''1,-2,3]'' @ ''}'') = None"
    using plain_negative_escaped by (simp add: plain_negative_def)
  have x: "extractSolution (Some plain_negative) = Inl (CouldNotParse InvalidCellNumbers)"
    using t e h unfolding plain_negative_def by blast
  have f: "snd (find_solution plain_negative) = Some ''1,-2,3''"
    using plain_negative_escaped plain_negative_plain by (simp add: find_solution_cases)
  have i: "invalid_cell (JNumber (- 2))" by (simp add: less_than_zero_def)
  have v: "\<forall>v \<in> set [JNumber 0, JNumber 1, JNumber 2]. \<exists>r. v = JNumber r \<and> \<not> less_than_zero r"
    using t gap_page_solution by blast
  then have z: "\<not> less_than_zero 0 \<and> \<not> less_than_zero 1 \<and> \<not> less_than_zero 2" by simp
  show ?thesis using plain_negative_escaped n x gap_page_solution z f parse_negative_array i by blast
qed

end
